theory Spec2Isabelle
  imports Main "HOL-Library.AList"
begin

section \<open>Python values used by the module\<close>

text \<open>
  A Python \<open>str\<close> is modelled as a \<^typ>\<open>string\<close>; a character stands for the code
  point of the same number (U+0000 to U+00FF).  The exceptions that can leave the
  module are values of \<open>error\<close>: those of the lookups and the URL routines, and those
  with which the parser rejects a page.
\<close>

datatype error = KeyError | TypeError | ValueError | AssertionError | ParserRejectedMarkup

text \<open>\<open>str.isspace\<close> on one character: the white space that \<open>str.strip()\<close>
  removes and that the regular expression class \<open>\S\<close> excludes.\<close>

definition isspace :: "char \<Rightarrow> bool" where
  "isspace c =
     (let n = (of_char c :: nat)
      in (9 \<le> n \<and> n \<le> 13) \<or> (28 \<le> n \<and> n \<le> 32) \<or> n = 133 \<or> n = 160)"

text \<open>\<open>str.strip()\<close> without argument.\<close>

definition strip :: "string \<Rightarrow> string" where
  "strip s = rev (dropWhile isspace (rev (dropWhile isspace s)))"

text \<open>\<open>str.lower()\<close>, character by character.\<close>

definition lower_char :: "char \<Rightarrow> char" where
  "lower_char c =
     (let n = (of_char c :: nat)
      in if (65 \<le> n \<and> n \<le> 90) \<or> (192 \<le> n \<and> n \<le> 222 \<and> n \<noteq> 215)
         then char_of (n + 32) else c)"

definition lower :: "string \<Rightarrow> string" where
  "lower s = map lower_char s"

text \<open>\<open>nonwhitespace_re.findall(value)\<close> with \<open>nonwhitespace_re = re.compile(r"\S+")\<close>:
  the maximal runs of characters that are not white space, from left to right.  The
  first argument of \<open>findall_from\<close> is the run being read.\<close>

fun findall_from :: "string \<Rightarrow> string \<Rightarrow> string list" where
  "findall_from w [] = (if w = [] then [] else [w])"
| "findall_from w (c # cs) =
     (if isspace c then (if w = [] then findall_from [] cs else w # findall_from [] cs)
      else findall_from (w @ [c]) cs)"

definition nonwhitespace_findall :: "string \<Rightarrow> string list" where
  "nonwhitespace_findall s = findall_from [] s"

section \<open>The parse tree of Beautiful Soup\<close>

text \<open>
  The classes of string nodes of a parse tree.  \<open>NavigableString\<close> is ordinary text;
  the others are the nodes made from CDATA sections, comments, processing instructions,
  declarations and the doctype.
\<close>

datatype string_class =
  NavigableString | CData | Comment | ProcessingInstruction | Declaration | Doctype

text \<open>
  A node is a tag with its name, its attributes and its children, or a string node.
  The type of the attributes is a parameter: it is a list of name and optional value
  for the markup as the tokenizer reads it, and the dictionary \<open>Tag.attrs\<close> for a
  parse tree.
\<close>

datatype 'a page_element =
  Tag (name: string) (attrs: 'a) (contents: "'a page_element list")
| PyString string_class string

text \<open>A value of \<open>Tag.attrs\<close> is a \<open>str\<close> or, for a multi-valued attribute, a list
  of \<open>str\<close>.\<close>

datatype attr_value = Str string | Toks "string list"

text \<open>A start tag as read from the page: the attributes in the order written, names
  as written, the value absent when the attribute has no \<open>=\<close>.\<close>

type_synonym raw_attrs = "(string \<times> string option) list"

text \<open>A Python \<open>dict\<close> with \<open>str\<close> keys: the keys are distinct and kept in the order
  of their first insertion.\<close>

type_synonym attrs_dict = "(string \<times> attr_value) list"

text \<open>\<open>PageElement.descendants\<close>: all nodes below a node, in document order.\<close>

fun descendants :: "'a page_element \<Rightarrow> 'a page_element list" where
  "descendants (Tag n a cs) = concat (map (\<lambda>c. c # descendants c) cs)"
| "descendants (PyString k s) = []"

text \<open>\<open>Tag.strings\<close>: the descendants whose class is \<open>NavigableString\<close> or \<open>CData\<close>
  (the default \<open>types\<close> of \<open>_all_strings\<close>).\<close>

fun own_string :: "'a page_element \<Rightarrow> string list" where
  "own_string (Tag n a cs) = []"
| "own_string (PyString k s) = (if k = NavigableString \<or> k = CData then [s] else [])"

definition strings :: "'a page_element \<Rightarrow> string list" where
  "strings t = concat (map own_string (descendants t))"

text \<open>The search \<open>find_all(name, attr=True)\<close>: a \<open>SoupStrainer\<close> for a tag name and one
  attribute that must be present; \<open>True\<close> matches every value that is not \<open>None\<close>.\<close>

fun search_tag :: "string \<Rightarrow> string \<Rightarrow> attrs_dict page_element \<Rightarrow> bool" where
  "search_tag nm attr (Tag n a cs) = (n = nm \<and> map_of a attr \<noteq> None)"
| "search_tag nm attr (PyString k s) = False"

definition find_all ::
  "attrs_dict page_element \<Rightarrow> string \<Rightarrow> string \<Rightarrow> attrs_dict page_element list" where
  "find_all t nm attr = filter (search_tag nm attr) (descendants t)"

text \<open>\<open>Tag.find\<close> is \<open>find_all\<close> with \<open>limit=1\<close>: the first match or \<open>None\<close>.\<close>

definition find_tag ::
  "attrs_dict page_element \<Rightarrow> string \<Rightarrow> string \<Rightarrow> attrs_dict page_element option" where
  "find_tag t nm attr = (case find_all t nm attr of [] \<Rightarrow> None | r # rs \<Rightarrow> Some r)"

text \<open>\<open>tag[key]\<close> is \<open>tag.attrs[key]\<close> and raises \<open>KeyError\<close> for a missing key;
  indexing a string node with a \<open>str\<close> raises \<open>TypeError\<close>.\<close>

fun getitem :: "attrs_dict page_element \<Rightarrow> string \<Rightarrow> error + attr_value" where
  "getitem (Tag n a cs) key = (case map_of a key of None \<Rightarrow> Inl KeyError | Some v \<Rightarrow> Inr v)"
| "getitem (PyString k s) key = Inl TypeError"

section \<open>Building the tree: \<open>BeautifulSoup(html, 'html.parser', from_encoding=...)\<close>\<close>

text \<open>
  \<open>BeautifulSoupHTMLParser.handle_starttag\<close> collects the attributes of a start tag in a
  dictionary: a missing value becomes the empty string, and a name that occurs again
  replaces the value stored for it.
\<close>

definition attr_dict :: "(string \<times> string option) list \<Rightarrow> (string \<times> string) list" where
  "attr_dict ras =
     foldl (\<lambda>d (key, v). AList.update key (case v of None \<Rightarrow> [] | Some s \<Rightarrow> s) d) [] ras"

text \<open>\<open>HTMLTreeBuilder.DEFAULT_CDATA_LIST_ATTRIBUTES\<close>: the attributes whose value is a
  list of tokens, for every tag (\<open>"*"\<close>) and for single tags.\<close>

definition universal_cdata_list_attributes :: "string list" where
  "universal_cdata_list_attributes = [''class'', ''accesskey'', ''dropzone'']"

definition tag_cdata_list_attributes :: "string \<Rightarrow> string list" where
  "tag_cdata_list_attributes tag_name =
     (if tag_name = ''a'' then [''rel'', ''rev'']
      else if tag_name = ''link'' then [''rel'', ''rev'']
      else if tag_name = ''td'' then [''headers'']
      else if tag_name = ''th'' then [''headers'']
      else if tag_name = ''form'' then [''accept-charset'']
      else if tag_name = ''object'' then [''archive'']
      else if tag_name = ''area'' then [''rel'']
      else if tag_name = ''icon'' then [''sizes'']
      else if tag_name = ''iframe'' then [''sandbox'']
      else if tag_name = ''output'' then [''for'']
      else [])"

definition cdata_list_attribute :: "string \<Rightarrow> string \<Rightarrow> bool" where
  "cdata_list_attribute tag_name attr =
     (attr \<in> set universal_cdata_list_attributes \<or> attr \<in> set (tag_cdata_list_attributes tag_name))"

text \<open>\<open>TreeBuilder._replace_cdata_list_attribute_values\<close>: the value of a multi-valued
  attribute is replaced by the list of its tokens; every other value stays a string.\<close>

definition replace_cdata_list_attribute_values ::
  "string \<Rightarrow> (string \<times> string) list \<Rightarrow> attrs_dict" where
  "replace_cdata_list_attribute_values tag_name d =
     map (\<lambda>(attr, v). (attr, if cdata_list_attribute tag_name attr
                              then Toks (nonwhitespace_findall v) else Str v)) d"

text \<open>
  One start tag: \<open>HTMLParser.parse_starttag\<close> lower-cases the tag name and every
  attribute name, \<open>handle_starttag\<close> builds the dictionary, and the constructor of
  \<open>Tag\<close> splits the multi-valued attributes.
\<close>

definition starttag_attrs :: "string \<Rightarrow> raw_attrs \<Rightarrow> attrs_dict" where
  "starttag_attrs tag_name ras =
     replace_cdata_list_attribute_values tag_name
       (attr_dict (map (\<lambda>(k, v). (lower k, v)) ras))"

fun build :: "raw_attrs page_element \<Rightarrow> attrs_dict page_element" where
  "build (Tag n ras cs) = Tag (lower n) (starttag_attrs (lower n) ras) (map build cs)"
| "build (PyString k s) = PyString k s"

text \<open>
  The tokenizer and the recovery from malformed markup belong to the parser library.
  They are the parameter \<open>feed\<close>: from the page (text or bytes) and the encoding hint
  to the nested markup that the parser recognises, names and attributes as written.
  The tokenizer does not accept every page: on some markup (a marked section with an
  unknown keyword, for one) \<open>HTMLParser.feed\<close> raises \<open>AssertionError\<close>, which
  Beautiful Soup hands on, in its later versions as \<open>ParserRejectedMarkup\<close>.  The
  exception leaves the constructor, so \<open>feed\<close> returns the markup or an exception
  and the constructor returns the tree or that exception.  The \<open>BeautifulSoup\<close>
  object is the tag \<open>[document]\<close> above the top-level nodes: \<open>root_tag\<close>.
\<close>

definition root_tag :: "raw_attrs page_element list \<Rightarrow> attrs_dict page_element" where
  "root_tag doc = Tag ''[document]'' [] (map build doc)"

definition BeautifulSoup ::
  "('h \<Rightarrow> string option \<Rightarrow> error + raw_attrs page_element list) \<Rightarrow> 'h \<Rightarrow> string option
     \<Rightarrow> error + attrs_dict page_element" where
  "BeautifulSoup feed html from_encoding =
     (case feed html from_encoding of
        Inl e \<Rightarrow> Inl e
      | Inr doc \<Rightarrow> Inr (root_tag doc))"

section \<open>\<open>urllib.parse.urljoin\<close>\<close>

text \<open>
  The resolution of a reference against a base is the routine \<open>urljoin\<close> of the
  standard library.  \<open>parse_links\<close> below takes it as the parameter \<open>join\<close>; the
  definitions of this section follow \<open>urllib/parse.py\<close> of CPython 3.11 and give the
  instance used on concrete pages.  One part of that file is not modelled:
  \<open>_check_bracketed_host\<close> validates an address in brackets with the module
  \<open>ipaddress\<close>, and its verdict is the parameter \<open>host_ok\<close>.  \<open>_checknetloc\<close> rejects
  only characters above U+00FF and is omitted.
\<close>

definition uses_relative :: "string list" where
  "uses_relative = ['''', ''ftp'', ''http'', ''gopher'', ''nntp'', ''imap'',
     ''wais'', ''file'', ''https'', ''shttp'', ''mms'',
     ''prospero'', ''rtsp'', ''rtsps'', ''rtspu'', ''sftp'',
     ''svn'', ''svn+ssh'', ''ws'', ''wss'']"

definition uses_netloc :: "string list" where
  "uses_netloc = ['''', ''ftp'', ''http'', ''gopher'', ''nntp'', ''telnet'',
     ''imap'', ''wais'', ''file'', ''mms'', ''https'', ''shttp'',
     ''snews'', ''prospero'', ''rtsp'', ''rtsps'', ''rtspu'', ''rsync'',
     ''svn'', ''svn+ssh'', ''sftp'', ''nfs'', ''git'', ''git+ssh'',
     ''ws'', ''wss'']"

definition uses_params :: "string list" where
  "uses_params = ['''', ''ftp'', ''hdl'', ''prospero'', ''http'', ''imap'',
     ''https'', ''shttp'', ''rtsp'', ''rtsps'', ''rtspu'', ''sip'',
     ''sips'', ''mms'', ''sftp'', ''tel'']"

definition scheme_chars :: string where
  "scheme_chars = ''abcdefghijklmnopqrstuvwxyzABCDEFGHIJKLMNOPQRSTUVWXYZ0123456789+-.''"

text \<open>\<open>s[:s.find(c)]\<close> and \<open>s[s.find(c)+1:]\<close> for a character \<open>c\<close> that occurs in
  \<open>s\<close>: the two parts of \<open>s.split(c, 1)\<close>.\<close>

definition before :: "char \<Rightarrow> string \<Rightarrow> string" where
  "before c s = takeWhile (\<lambda>x. x \<noteq> c) s"

definition after :: "char \<Rightarrow> string \<Rightarrow> string" where
  "after c s = drop 1 (dropWhile (\<lambda>x. x \<noteq> c) s)"

text \<open>\<open>s.split(sep)\<close> and \<open>sep.join(parts)\<close> for a separator of one character.\<close>

fun split_on :: "char \<Rightarrow> string \<Rightarrow> string list" where
  "split_on sep [] = [[]]"
| "split_on sep (c # cs) =
     (if c = sep then [] # split_on sep cs
      else (case split_on sep cs of [] \<Rightarrow> [[c]] | w # ws \<Rightarrow> (c # w) # ws))"

fun join_with :: "char \<Rightarrow> string list \<Rightarrow> string" where
  "join_with sep [] = []"
| "join_with sep [x] = x"
| "join_with sep (x # y # ys) = x @ sep # join_with sep (y # ys)"

definition c0_control_or_space :: "char \<Rightarrow> bool" where
  "c0_control_or_space c = ((of_char c :: nat) \<le> 32)"

definition unsafe_url_byte :: "char \<Rightarrow> bool" where
  "unsafe_url_byte c = (c = CHR 0x09 \<or> c = CHR 0x0D \<or> c = CHR 0x0A)"

definition ascii_alpha :: "char \<Rightarrow> bool" where
  "ascii_alpha c =
     (let n = (of_char c :: nat) in (65 \<le> n \<and> n \<le> 90) \<or> (97 \<le> n \<and> n \<le> 122))"

text \<open>\<open>_splitnetloc(url, 2)\<close>: the authority ends at the first of \<open>/\<close>, \<open>?\<close> and \<open>#\<close>
  after the two slashes.\<close>

definition splitnetloc :: "string \<Rightarrow> string \<times> string" where
  "splitnetloc url =
     (let r = drop 2 url
      in (takeWhile (\<lambda>c. c \<notin> set ''/?#'') r, dropWhile (\<lambda>c. c \<notin> set ''/?#'') r))"

text \<open>The end of \<open>urlsplit\<close>: fragment, then query, are cut off the rest.\<close>

definition split_tail ::
  "string \<Rightarrow> string \<Rightarrow> string \<Rightarrow> string \<times> string \<times> string \<times> string \<times> string" where
  "split_tail scheme netloc url =
     (let (url1, fragment) =
            (if CHR ''#'' \<in> set url then (before CHR ''#'' url, after CHR ''#'' url)
             else (url, []));
          (url2, query) =
            (if CHR ''?'' \<in> set url1 then (before CHR ''?'' url1, after CHR ''?'' url1)
             else (url1, []))
      in (scheme, netloc, url2, query, fragment))"

definition urlsplit ::
  "(string \<Rightarrow> bool) \<Rightarrow> string \<Rightarrow> string
     \<Rightarrow> error + (string \<times> string \<times> string \<times> string \<times> string)" where
  "urlsplit host_ok url0 scheme0 =
     (let url1 = filter (\<lambda>c. \<not> unsafe_url_byte c) (dropWhile c0_control_or_space url0);
          scheme1 = filter (\<lambda>c. \<not> unsafe_url_byte c)
                      (rev (dropWhile c0_control_or_space
                         (rev (dropWhile c0_control_or_space scheme0))));
          (scheme, url) =
            (if CHR '':'' \<in> set url1 \<and> before CHR '':'' url1 \<noteq> [] \<and> ascii_alpha (hd url1)
                \<and> list_all (\<lambda>c. c \<in> set scheme_chars) (before CHR '':'' url1)
             then (lower (before CHR '':'' url1), after CHR '':'' url1)
             else (scheme1, url1))
      in if take 2 url = ''//'' then
           (let (netloc, rest) = splitnetloc url
            in if (CHR ''['' \<in> set netloc \<and> CHR '']'' \<notin> set netloc)
                  \<or> (CHR '']'' \<in> set netloc \<and> CHR ''['' \<notin> set netloc)
               then Inl ValueError
               else if CHR ''['' \<in> set netloc \<and> CHR '']'' \<in> set netloc
                       \<and> \<not> host_ok (before CHR '']'' (after CHR ''['' netloc))
               then Inl ValueError
               else Inr (split_tail scheme netloc rest))
         else Inr (split_tail scheme [] url))"

text \<open>\<open>_splitparams\<close>: the parameters start at the first \<open>;\<close> of the last path
  segment.\<close>

definition splitparams :: "string \<Rightarrow> string \<times> string" where
  "splitparams url =
     (if CHR ''/'' \<in> set url then
        (let lastseg = rev (takeWhile (\<lambda>c. c \<noteq> CHR ''/'') (rev url));
             upto = rev (dropWhile (\<lambda>c. c \<noteq> CHR ''/'') (rev url))
         in if CHR '';'' \<notin> set lastseg then (url, [])
            else (upto @ before CHR '';'' lastseg, after CHR '';'' lastseg))
      else (before CHR '';'' url, after CHR '';'' url))"

definition urlparse ::
  "(string \<Rightarrow> bool) \<Rightarrow> string \<Rightarrow> string
     \<Rightarrow> error + (string \<times> string \<times> string \<times> string \<times> string \<times> string)" where
  "urlparse host_ok url0 scheme0 =
     (case urlsplit host_ok url0 scheme0 of
        Inl e \<Rightarrow> Inl e
      | Inr (scheme, netloc, url, query, fragment) \<Rightarrow>
          (if scheme \<in> set uses_params \<and> CHR '';'' \<in> set url
           then (case splitparams url of
                   (url1, params) \<Rightarrow> Inr (scheme, netloc, url1, params, query, fragment))
           else Inr (scheme, netloc, url, [], query, fragment)))"

definition urlunsplit :: "string \<Rightarrow> string \<Rightarrow> string \<Rightarrow> string \<Rightarrow> string \<Rightarrow> string" where
  "urlunsplit scheme netloc url0 query fragment =
     (let url1 = (if netloc \<noteq> [] \<or> (scheme \<noteq> [] \<and> scheme \<in> set uses_netloc)
                     \<or> take 2 url0 = ''//''
                  then ''//'' @ netloc
                         @ (if url0 \<noteq> [] \<and> take 1 url0 \<noteq> ''/'' then ''/'' @ url0 else url0)
                  else url0);
          url2 = (if scheme \<noteq> [] then scheme @ '':'' @ url1 else url1);
          url3 = (if query \<noteq> [] then url2 @ ''?'' @ query else url2)
      in if fragment \<noteq> [] then url3 @ ''#'' @ fragment else url3)"

definition urlunparse ::
  "string \<Rightarrow> string \<Rightarrow> string \<Rightarrow> string \<Rightarrow> string \<Rightarrow> string \<Rightarrow> string" where
  "urlunparse scheme netloc url params query fragment =
     urlunsplit scheme netloc (if params \<noteq> [] then url @ '';'' @ params else url)
       query fragment"

text \<open>The loop of \<open>urljoin\<close> over the path segments: \<open>..\<close> removes the last segment
  kept so far, if there is one, and \<open>.\<close> is dropped.\<close>

definition resolve_segments :: "string list \<Rightarrow> string list" where
  "resolve_segments segments =
     foldl (\<lambda>resolved_path seg.
              if seg = ''..'' then butlast resolved_path
              else if seg = ''.'' then resolved_path
              else resolved_path @ [seg]) [] segments"

definition urljoin :: "(string \<Rightarrow> bool) \<Rightarrow> string \<Rightarrow> string \<Rightarrow> error + string" where
  "urljoin host_ok base url =
     (if base = [] then Inr url
      else if url = [] then Inr base
      else case urlparse host_ok base [] of
        Inl e \<Rightarrow> Inl e
      | Inr (bscheme, bnetloc, bpath, bparams, bquery, bfragment) \<Rightarrow>
      (case urlparse host_ok url bscheme of
        Inl e \<Rightarrow> Inl e
      | Inr (scheme, netloc0, path, params, query, fragment) \<Rightarrow>
          if scheme \<noteq> bscheme \<or> scheme \<notin> set uses_relative then Inr url
          else if scheme \<in> set uses_netloc \<and> netloc0 \<noteq> []
          then Inr (urlunparse scheme netloc0 path params query fragment)
          else
            (let netloc = (if scheme \<in> set uses_netloc then bnetloc else netloc0)
             in if path = [] \<and> params = []
                then Inr (urlunparse scheme netloc bpath bparams
                            (if query = [] then bquery else query) fragment)
                else
                  (let parts = split_on CHR ''/'' bpath;
                       base_parts = (if last parts \<noteq> [] then butlast parts else parts);
                       segments =
                         (if take 1 path = ''/'' then split_on CHR ''/'' path
                          else (let segs = base_parts @ split_on CHR ''/'' path
                                in if length segs < 2 then segs
                                   else hd segs # filter (\<lambda>s. s \<noteq> []) (butlast (tl segs))
                                          @ [last segs]));
                       resolved_path =
                         resolve_segments segments
                           @ (if last segments = ''.'' \<or> last segments = ''..'' then [[]] else []);
                       joined = join_with CHR ''/'' resolved_path
                   in Inr (urlunparse scheme netloc (if joined = [] then ''/'' else joined)
                             params query fragment)))))"

section \<open>The module \<open>parse_old.py\<close>\<close>

text \<open>
  A generator function is modelled by its run: the values it yields, in order, and
  the exception that ends the iteration, if one does (\<open>None\<close> is the normal end).
\<close>

type_synonym 'a generator = "'a list \<times> error option"

text \<open>The triple that \<open>parse_links\<close> yields: link text, link URL, attributes.\<close>

type_synonym link_triple = "string \<times> string \<times> attrs_dict"

text \<open>
  \<open>tag['href']\<close> where the value is handed on as a URL.  The URL routines take a
  \<open>str\<close>; a list raises \<open>TypeError\<close> there.
\<close>

definition href_of :: "attrs_dict page_element \<Rightarrow> error + string" where
  "href_of tag =
     (case getitem tag ''href'' of
        Inl e \<Rightarrow> Inl e
      | Inr (Str s) \<Rightarrow> Inr s
      | Inr (Toks ts) \<Rightarrow> Inl TypeError)"

text \<open>Lines 72 to 77: the base URL after the \<open>base\<close> tag of the page has been taken
  into account.\<close>

definition effective_base ::
  "(string \<Rightarrow> string \<Rightarrow> error + string) \<Rightarrow> attrs_dict page_element \<Rightarrow> string option
     \<Rightarrow> error + string option" where
  "effective_base join soup base_url =
     (case find_tag soup ''base'' ''href'' of
        None \<Rightarrow> Inr base_url
      | Some base_tag \<Rightarrow>
          (case base_url of
             None \<Rightarrow> (case href_of base_tag of Inl e \<Rightarrow> Inl e | Inr h \<Rightarrow> Inr (Some h))
           | Some b \<Rightarrow>
               (case href_of base_tag of
                  Inl e \<Rightarrow> Inl e
                | Inr h \<Rightarrow> (case join b h of Inl e \<Rightarrow> Inl e | Inr u \<Rightarrow> Inr (Some u)))))"

text \<open>Lines 78 to 84: the local function \<open>basejoin\<close>.\<close>

definition basejoin ::
  "(string \<Rightarrow> string \<Rightarrow> error + string) \<Rightarrow> string option \<Rightarrow> string \<Rightarrow> error + string" where
  "basejoin join base_url url = (case base_url of None \<Rightarrow> Inr url | Some b \<Rightarrow> join b url)"

text \<open>Lines 85 to 90: the loop over the anchors found.  An exception in the body ends
  the generator after the triples already yielded.\<close>

fun yield_links ::
  "(string \<Rightarrow> error + string) \<Rightarrow> attrs_dict page_element list \<Rightarrow> link_triple generator" where
  "yield_links bj [] = ([], None)"
| "yield_links bj (link # links) =
     (case href_of link of
        Inl e \<Rightarrow> ([], Some e)
      | Inr h \<Rightarrow>
          (case bj h of
             Inl e \<Rightarrow> ([], Some e)
           | Inr u \<Rightarrow>
               (case yield_links bj links of
                  (ys, r) \<Rightarrow> ((strip (concat (strings link)), u, attrs link) # ys, r))))"

text \<open>Line 71 and the whole body: an exception of the constructor ends the generator
  before anything is yielded, as one of the base computation does.\<close>

definition parse_links ::
  "('h \<Rightarrow> string option \<Rightarrow> error + raw_attrs page_element list)
     \<Rightarrow> (string \<Rightarrow> string \<Rightarrow> error + string)
     \<Rightarrow> 'h \<Rightarrow> string option \<Rightarrow> string option \<Rightarrow> link_triple generator" where
  "parse_links feed join html base_url from_encoding =
     (case BeautifulSoup feed html from_encoding of
        Inl e \<Rightarrow> ([], Some e)
      | Inr soup \<Rightarrow>
          (case effective_base join soup base_url of
             Inl e \<Rightarrow> ([], Some e)
           | Inr base \<Rightarrow> yield_links (basejoin join base) (find_all soup ''a'' ''href'')))"

text \<open>Lines 22 and 23: \<open>parse_simple_index\<close> yields a pair for every triple it receives
  and ends as the inner generator ends.\<close>

fun index_pairs :: "link_triple list \<Rightarrow> error option \<Rightarrow> (string \<times> string) generator" where
  "index_pairs [] r = ([], r)"
| "index_pairs ((filename, u, a) # ts) r =
     (case index_pairs ts r of (ys, r') \<Rightarrow> ((filename, u) # ys, r'))"

definition parse_simple_index ::
  "('h \<Rightarrow> string option \<Rightarrow> error + raw_attrs page_element list)
     \<Rightarrow> (string \<Rightarrow> string \<Rightarrow> error + string)
     \<Rightarrow> 'h \<Rightarrow> string option \<Rightarrow> string option \<Rightarrow> (string \<times> string) generator" where
  "parse_simple_index feed join html base_url from_encoding =
     (case parse_links feed join html base_url from_encoding of (ts, r) \<Rightarrow> index_pairs ts r)"

text \<open>
  The class \<open>Link\<close> of \<open>classes.py\<close> is a tuple of three named fields.  The classifier
  \<open>DistributionPackage.from_link\<close> is not part of this module: it is the parameter
  \<open>from_link\<close>, which returns a package record or raises.
\<close>

datatype Link = Link (link_text: string) (link_url: string) (link_attrs: attrs_dict)

text \<open>Lines 44 to 48: the loop of \<open>parse_project_page\<close>, with the list \<open>files\<close> built
  so far.\<close>

fun collect_files ::
  "(Link \<Rightarrow> string option \<Rightarrow> error + 'p) \<Rightarrow> string option \<Rightarrow> 'p list
     \<Rightarrow> link_triple list \<Rightarrow> error option \<Rightarrow> error + 'p list" where
  "collect_files from_link project_hint files [] None = Inr files"
| "collect_files from_link project_hint files [] (Some e) = Inl e"
| "collect_files from_link project_hint files ((t, u, a) # ts) r =
     (case from_link (Link t u a) project_hint of
        Inl e \<Rightarrow> Inl e
      | Inr p \<Rightarrow> collect_files from_link project_hint (files @ [p]) ts r)"

definition parse_project_page ::
  "('h \<Rightarrow> string option \<Rightarrow> error + raw_attrs page_element list)
     \<Rightarrow> (string \<Rightarrow> string \<Rightarrow> error + string)
     \<Rightarrow> (Link \<Rightarrow> string option \<Rightarrow> error + 'p)
     \<Rightarrow> 'h \<Rightarrow> string option \<Rightarrow> string option \<Rightarrow> string option \<Rightarrow> error + 'p list" where
  "parse_project_page feed join from_link html base_url from_encoding project_hint =
     (case parse_links feed join html base_url from_encoding of
        (ts, r) \<Rightarrow> collect_files from_link project_hint [] ts r)"

section \<open>The page as written\<close>

text \<open>
  The statements below speak about the page as the tokenizer reads it.  An element
  carries an attribute when one of the attribute names written in its start tag is
  that name in any mix of upper and lower case; the same holds for the tag name.
\<close>

fun carries :: "string \<Rightarrow> string \<Rightarrow> raw_attrs page_element \<Rightarrow> bool" where
  "carries nm attr (Tag n ras cs) = (lower n = nm \<and> attr \<in> set (map (\<lambda>(k, v). lower k) ras))"
| "carries nm attr (PyString k s) = False"

text \<open>All nodes of the page in document order.\<close>

definition document_order :: "raw_attrs page_element list \<Rightarrow> raw_attrs page_element list" where
  "document_order doc = descendants (Tag ''[document]'' [] doc)"

text \<open>The value written for an attribute: that of its last occurrence in the start tag,
  the empty string when the occurrence has no value, \<open>None\<close> when the tag does not
  carry the attribute.\<close>

definition written_value :: "string \<Rightarrow> raw_attrs \<Rightarrow> string option" where
  "written_value attr ras =
     (case filter (\<lambda>(k, v). lower k = attr) ras of
        [] \<Rightarrow> None
      | x # xs \<Rightarrow> Some (case snd (last (x # xs)) of None \<Rightarrow> [] | Some s \<Rightarrow> s))"

definition declared_href :: "raw_attrs page_element \<Rightarrow> string" where
  "declared_href e = (case written_value ''href'' (attrs e) of None \<Rightarrow> [] | Some s \<Rightarrow> s)"

text \<open>The anchors with an \<open>href\<close>, in document order, and the first \<open>base\<close> element
  with an \<open>href\<close>.\<close>

definition anchors_with_href :: "raw_attrs page_element list \<Rightarrow> raw_attrs page_element list" where
  "anchors_with_href doc = filter (carries ''a'' ''href'') (document_order doc)"

definition first_base :: "raw_attrs page_element list \<Rightarrow> raw_attrs page_element option" where
  "first_base doc =
     (case filter (carries ''base'' ''href'') (document_order doc) of
        [] \<Rightarrow> None
      | b # bs \<Rightarrow> Some b)"

text \<open>
  The effective base URL in the words of the specification: the \<open>href\<close> declared by
  the first \<open>base\<close> element when no base URL is supplied, that \<open>href\<close> resolved against
  the supplied base URL when there is one, and the supplied base URL when the page has
  no such element.  A failure of the resolution is the failure of the whole.
\<close>

definition spec_effective_base ::
  "(string \<Rightarrow> string \<Rightarrow> error + string) \<Rightarrow> raw_attrs page_element list \<Rightarrow> string option
     \<Rightarrow> error + string option" where
  "spec_effective_base join doc base_url =
     (case first_base doc of
        None \<Rightarrow> Inr base_url
      | Some e \<Rightarrow>
          (case base_url of
             None \<Rightarrow> Inr (Some (declared_href e))
           | Some b \<Rightarrow> (case join b (declared_href e) of
                          Inl x \<Rightarrow> Inl x
                        | Inr u \<Rightarrow> Inr (Some u))))"

text \<open>
  Concrete pages are given by their markup: \<open>markup_given\<close> is the reader for a page
  that is already the nested markup, whatever the encoding hint; it accepts every
  such page.  None of the URLs on these pages has an address in brackets, so the
  verdict \<open>any_host\<close> on such addresses is never asked for.
\<close>

definition markup_given ::
  "raw_attrs page_element list \<Rightarrow> string option \<Rightarrow> error + raw_attrs page_element list" where
  "markup_given html from_encoding = Inr html"

definition any_host :: "string \<Rightarrow> bool" where
  "any_host h = True"

text \<open>A call or a resolution succeeds when it returns a value and raises nothing.\<close>

definition succeeds :: "error + 'a \<Rightarrow> bool" where
  "succeeds r = (case r of Inl e \<Rightarrow> False | Inr v \<Rightarrow> True)"

text \<open>The pages of the examples.\<close>

definition unresolvable_page :: "raw_attrs page_element list" where
  "unresolvable_page =
     [Tag ''a'' [(''href'', Some ''//['')] [PyString NavigableString ''broken'']]"

definition base_page :: "raw_attrs page_element list" where
  "base_page =
     [Tag ''html'' []
        [Tag ''head'' [] [Tag ''base'' [(''href'', Some ''c/'')] []],
         Tag ''body'' [] [Tag ''a'' [(''href'', Some ''d'')] [PyString NavigableString ''t'']]]]"

definition index_page :: "raw_attrs page_element list" where
  "index_page =
     [Tag ''html'' []
        [Tag ''body'' []
           [Tag ''a'' [(''href'', Some ''a'')] [PyString NavigableString ''PkgA''],
            Tag ''br'' [] [],
            Tag ''a'' [(''name'', Some ''top'')] [PyString NavigableString ''no link''],
            Tag ''A'' [(''HREF'', Some ''/b''), (''class'', Some ''a b''), (''data-x'', Some ''1''),
                       (''REL'', Some ''nofollow  noopener'')]
              [PyString NavigableString ''PkgB'']]]]"

definition text_page :: "raw_attrs page_element list" where
  "text_page =
     [Tag ''a'' [(''href'', Some ''x'')]
        [PyString NavigableString ''  '',
         Tag ''b'' [] [PyString NavigableString ''foo''],
         PyString NavigableString ('' '' @ [CHR 0x0A] @ '' ''),
         PyString Comment ''not text'',
         Tag ''i'' [] [PyString NavigableString ''bar''],
         PyString NavigableString ''  '']]"

definition title_page :: "raw_attrs page_element list" where
  "title_page =
     [Tag ''a'' [(''href'', Some ''x''), (''title'', Some ''a b''), (''class'', Some ''a'')]
        [PyString NavigableString ''t'']]"

definition half_resolvable_page :: "raw_attrs page_element list" where
  "half_resolvable_page =
     [Tag ''a'' [(''href'', Some ''ok'')] [PyString NavigableString ''first''],
      Tag ''a'' [(''href'', Some ''//['')] [PyString NavigableString ''second'']]"

definition unnamed_link_page :: "raw_attrs page_element list" where
  "unnamed_link_page =
     [Tag ''a'' [(''href'', Some ''a'')] [PyString NavigableString ''PkgA''],
      Tag ''a'' [(''href'', Some ''b'')] [PyString NavigableString ''  ''],
      Tag ''a'' [(''href'', Some ''c'')] [PyString NavigableString ''PkgC'']]"

text \<open>Two classifiers for the examples.  The first accepts every link and returns its
  two arguments as the record.  The second does the same but raises \<open>TypeError\<close> for
  a link without text.\<close>

definition keep_link :: "Link \<Rightarrow> string option \<Rightarrow> error + (Link \<times> string option)" where
  "keep_link link project_hint = Inr (link, project_hint)"

definition named_link :: "Link \<Rightarrow> string option \<Rightarrow> error + (Link \<times> string option)" where
  "named_link link project_hint =
     (if link_text link = [] then Inl TypeError else Inr (link, project_hint))"

section \<open>The attributes of a start tag\<close>

lemma map_of_foldl_update:
  "map_of (foldl (\<lambda>d (key, v). AList.update key (g v) d) d0 ras)
     = map_of (rev (map (\<lambda>(k, v). (k, g v)) ras) @ d0)"
proof (induction ras arbitrary: d0)
  case Nil
  then show ?case by simp
next
  case (Cons x ras)
  obtain k v where x: "x = (k, v)" by (cases x)
  show ?case
    by (simp add: x Cons.IH update_conv' map_add_def fun_eq_iff split: option.splits)
qed

lemma map_of_attr_dict:
  "map_of (attr_dict ras) = map_of (rev (map (\<lambda>(k, v). (k, case v of None \<Rightarrow> [] | Some s \<Rightarrow> s)) ras))"
  unfolding attr_dict_def using map_of_foldl_update [of "\<lambda>v. case v of None \<Rightarrow> [] | Some s \<Rightarrow> s" "[]" ras]
  by simp

lemma map_of_rev_written:
  "map_of (rev (map (\<lambda>(k, v). (k, case v of None \<Rightarrow> [] | Some s \<Rightarrow> s)) (map (\<lambda>(k, v). (lower k, v)) ras))) attr
     = written_value attr ras"
proof (induction ras rule: rev_induct)
  case Nil
  then show ?case by (simp add: written_value_def)
next
  case (snoc x ras)
  obtain k v where x: "x = (k, v)" by (cases x)
  show ?case using snoc.IH
    by (auto simp add: x written_value_def split: list.splits option.splits)
qed

lemma map_of_replace_cdata:
  "map_of (replace_cdata_list_attribute_values nm d) attr
     = map_option (\<lambda>v. if cdata_list_attribute nm attr then Toks (nonwhitespace_findall v) else Str v)
         (map_of d attr)"
  unfolding replace_cdata_list_attribute_values_def
  by (induction d) auto

lemma map_of_starttag_attrs:
  "map_of (starttag_attrs nm ras) attr
     = map_option (\<lambda>v. if cdata_list_attribute nm attr then Toks (nonwhitespace_findall v) else Str v)
         (written_value attr ras)"
proof -
  have "map_of (attr_dict (map (\<lambda>(k, v). (lower k, v)) ras)) attr = written_value attr ras"
    unfolding map_of_attr_dict by (rule map_of_rev_written)
  then show ?thesis
    by (simp add: starttag_attrs_def map_of_replace_cdata)
qed

lemma written_value_None: "written_value attr ras = None \<longleftrightarrow> attr \<notin> set (map (\<lambda>(k, v). lower k) ras)"
proof -
  have "written_value attr ras = None \<longleftrightarrow> filter (\<lambda>(k, v). lower k = attr) ras = []"
    by (simp add: written_value_def split: list.splits)
  then show ?thesis
    by (auto simp: filter_empty_conv)
qed

lemma distinct_attr_dict_aux:
  "distinct (map fst d0) \<Longrightarrow> distinct (map fst (foldl (\<lambda>d (key, v). AList.update key (g v) d) d0 ras))"
  by (induction ras arbitrary: d0) (auto simp: distinct_update split: prod.splits)

lemma distinct_starttag_attrs: "distinct (map fst (starttag_attrs nm ras))"
proof -
  have "map fst (replace_cdata_list_attribute_values nm d) = map fst d" for d
    unfolding replace_cdata_list_attribute_values_def by (induction d) auto
  then show ?thesis
    unfolding starttag_attrs_def attr_dict_def
    using distinct_attr_dict_aux [of "[]"] by simp
qed

lemma descendants_build: "descendants (build t) = map build (descendants t)"
  by (induction t) (auto simp: map_concat comp_def intro!: arg_cong [where f = concat])

lemma own_string_build: "own_string (build t) = own_string t"
  by (cases t) auto

lemma strings_build: "strings (build t) = strings t"
  by (simp add: strings_def descendants_build comp_def own_string_build)

lemma search_tag_build: "search_tag nm attr (build t) = carries nm attr t"
  by (cases t) (auto simp: map_of_starttag_attrs written_value_None)

lemma descendants_soup:
  "descendants (root_tag doc) = map build (document_order doc)"
  by (simp add: root_tag_def document_order_def map_concat comp_def descendants_build)

lemma find_all_soup:
  "find_all (root_tag doc) nm attr
     = map build (filter (carries nm attr) (document_order doc))"
  by (simp add: find_all_def descendants_soup filter_map comp_def search_tag_build)

lemma href_not_cdata_list: "\<not> cdata_list_attribute nm ''href''"
  by (simp add: cdata_list_attribute_def universal_cdata_list_attributes_def tag_cdata_list_attributes_def)

section \<open>The tree and the page\<close>

lemma href_of_build:
  assumes "carries nm ''href'' e"
  shows "href_of (build e) = Inr (declared_href e)"
proof (cases e)
  case (Tag n ras cs)
  with assms have "written_value ''href'' ras \<noteq> None"
    by (simp add: written_value_None)
  then obtain s where "written_value ''href'' ras = Some s" by blast
  then show ?thesis
    by (simp add: Tag href_of_def map_of_starttag_attrs href_not_cdata_list declared_href_def)
next
  case (PyString k s)
  with assms show ?thesis by simp
qed

lemma find_tag_soup:
  "find_tag (root_tag doc) ''base'' ''href'' = map_option build (first_base doc)"
  by (simp add: find_tag_def find_all_soup first_base_def split: list.splits)

lemma first_base_carries: "first_base doc = Some e \<Longrightarrow> carries ''base'' ''href'' e"
proof -
  assume "first_base doc = Some e"
  then obtain bs where "filter (carries ''base'' ''href'') (document_order doc) = e # bs"
    by (auto simp: first_base_def split: list.splits)
  then have "e \<in> set (filter (carries ''base'' ''href'') (document_order doc))"
    by (simp del: set_filter)
  then show ?thesis by simp
qed

lemma effective_base_soup:
  "effective_base join (root_tag doc) base_url = spec_effective_base join doc base_url"
proof (cases "first_base doc")
  case None
  then show ?thesis
    by (simp add: effective_base_def spec_effective_base_def find_tag_soup)
next
  case (Some e)
  then have "href_of (build e) = Inr (declared_href e)"
    using first_base_carries href_of_build by blast
  with Some show ?thesis
    by (simp add: effective_base_def spec_effective_base_def find_tag_soup split: option.splits)
qed

lemma anchors_carry: "a \<in> set (anchors_with_href doc) \<Longrightarrow> carries ''a'' ''href'' a"
  by (simp add: anchors_with_href_def)

lemma attrs_build_anchor:
  "carries ''a'' attr e \<Longrightarrow> attrs (build e) = starttag_attrs ''a'' (attrs e)"
  by (cases e) auto

text \<open>What the loop yields for the i-th link.\<close>

lemma yield_links_nth:
  assumes "i < length (fst (yield_links bj ls))"
  shows "i < length ls
    \<and> (\<exists>h. href_of (ls ! i) = Inr h \<and> bj h = Inr (fst (snd (fst (yield_links bj ls) ! i))))
    \<and> fst (fst (yield_links bj ls) ! i) = strip (concat (strings (ls ! i)))
    \<and> snd (snd (fst (yield_links bj ls) ! i)) = attrs (ls ! i)"
  using assms
proof (induction ls arbitrary: i)
  case Nil
  then show ?case by simp
next
  case (Cons l ls)
  from Cons.prems obtain h u where h: "href_of l = Inr h" and u: "bj h = Inr u"
    by (auto split: sum.splits)
  obtain ys r where yr: "yield_links bj ls = (ys, r)" by (cases "yield_links bj ls")
  show ?case
  proof (cases i)
    case 0
    then show ?thesis by (simp add: h u yr)
  next
    case (Suc j)
    with Cons.prems have "j < length (fst (yield_links bj ls))"
      by (simp add: h u yr)
    from Cons.IH [OF this] show ?thesis
      by (simp add: Suc h u yr)
  qed
qed

lemma yield_links_complete:
  assumes "\<forall>l \<in> set ls. \<exists>h u. href_of l = Inr h \<and> bj h = Inr u"
  shows "snd (yield_links bj ls) = None \<and> length (fst (yield_links bj ls)) = length ls"
  using assms
proof (induction ls)
  case Nil
  then show ?case by simp
next
  case (Cons l ls)
  then obtain h u where "href_of l = Inr h" "bj h = Inr u" by auto
  moreover obtain ys r where "yield_links bj ls = (ys, r)" by (cases "yield_links bj ls")
  ultimately show ?case using Cons by simp
qed

lemma parse_links_rejected:
  "feed html enc = Inl e \<Longrightarrow> parse_links feed join html base_url enc = ([], Some e)"
  by (simp add: parse_links_def BeautifulSoup_def)

lemma parse_links_unfold:
  assumes "feed html enc = Inr doc"
  shows "parse_links feed join html base_url enc =
     (case spec_effective_base join doc base_url of
        Inl e \<Rightarrow> ([], Some e)
      | Inr base \<Rightarrow> yield_links (basejoin join base) (map build (anchors_with_href doc)))"
  using assms
  by (simp add: parse_links_def BeautifulSoup_def effective_base_soup
        find_all_soup anchors_with_href_def split: sum.splits)

lemma parse_links_nth:
  assumes "feed html enc = Inr doc"
    and "i < length (fst (parse_links feed join html base_url enc))"
  shows "i < length (anchors_with_href doc)
    \<and> (\<exists>base. spec_effective_base join doc base_url = Inr base
          \<and> basejoin join base (declared_href (anchors_with_href doc ! i))
               = Inr (fst (snd (fst (parse_links feed join html base_url enc) ! i))))
    \<and> fst (fst (parse_links feed join html base_url enc) ! i)
         = strip (concat (strings (anchors_with_href doc ! i)))
    \<and> snd (snd (fst (parse_links feed join html base_url enc) ! i))
         = starttag_attrs ''a'' (attrs (anchors_with_href doc ! i))"
proof -
  let ?as = "anchors_with_href doc"
  note unfold = parse_links_unfold [where feed = feed and html = html and enc = enc, OF assms(1)]
  from assms(2) obtain base where base: "spec_effective_base join doc base_url = Inr base"
    by (auto simp: unfold split: sum.splits)
  then have pl: "parse_links feed join html base_url enc = yield_links (basejoin join base) (map build ?as)"
    by (simp add: unfold)
  from assms(2) have i: "i < length (fst (yield_links (basejoin join base) (map build ?as)))"
    by (simp add: pl)
  note y = yield_links_nth [OF i]
  from y have len: "i < length ?as" by simp
  then have c: "carries ''a'' ''href'' (?as ! i)"
    using anchors_carry nth_mem by blast
  from y len show ?thesis
    by (simp add: pl base href_of_build [OF c] strings_build attrs_build_anchor [OF c])
qed

section \<open>Stripping and projecting\<close>

lemma strip_decomp:
  "s = takeWhile isspace s @ strip s @ rev (takeWhile isspace (rev (dropWhile isspace s)))"
proof -
  let ?d = "dropWhile isspace s"
  have "?d = strip s @ rev (takeWhile isspace (rev ?d))"
    using takeWhile_dropWhile_id [of isspace "rev ?d"]
    by (metis rev_append rev_rev_ident strip_def)
  moreover have "s = takeWhile isspace s @ ?d" by simp
  ultimately show ?thesis by metis
qed

lemma strip_ends:
  assumes "strip s \<noteq> []"
  shows "\<not> isspace (hd (strip s)) \<and> \<not> isspace (last (strip s))"
proof -
  let ?d = "dropWhile isspace s"
  let ?e = "dropWhile isspace (rev ?d)"
  from assms have e: "?e \<noteq> []" by (simp add: strip_def)
  then have "\<not> isspace (hd ?e)" by (rule hd_dropWhile)
  moreover have "last (strip s) = hd ?e" using e by (simp add: strip_def last_rev)
  ultimately have l: "\<not> isspace (last (strip s))" by simp
  have "?d = strip s @ rev (takeWhile isspace (rev ?d))"
    using takeWhile_dropWhile_id [of isspace "rev ?d"]
    by (metis rev_append rev_rev_ident strip_def)
  with assms have "hd ?d = hd (strip s)" and "?d \<noteq> []"
    by (metis hd_append2, metis append_is_Nil_conv)
  then have "\<not> isspace (hd (strip s))" using hd_dropWhile [of isspace s] by simp
  with l show ?thesis by simp
qed

lemma index_pairs_map: "index_pairs ts r = (map (\<lambda>(t, u, a). (t, u)) ts, r)"
  by (induction ts) auto


section \<open>Keys, tokens and exceptions\<close>

lemma lower_char_idem: "lower_char (lower_char c) = lower_char c"
  by (auto simp: lower_char_def Let_def)

lemma lower_idem: "lower (lower s) = lower s"
  by (simp add: lower_def lower_char_idem)

lemma keys_starttag_attrs:
  "set (map fst (starttag_attrs nm ras)) = set (map (\<lambda>(k, v). lower k) ras)"
proof -
  have "set (map fst (starttag_attrs nm ras)) = dom (map_of (starttag_attrs nm ras))"
    by (simp add: dom_map_of_conv_image_fst)
  also have "\<dots> = {k. written_value k ras \<noteq> None}"
    by (auto simp: map_of_starttag_attrs dom_def)
  also have "\<dots> = set (map (\<lambda>(k, v). lower k) ras)"
    by (auto simp: written_value_None simp del: set_map)
  finally show ?thesis .
qed

lemma findall_from_concat:
  "concat (findall_from w s) = w @ filter (\<lambda>c. \<not> isspace c) s"
  by (induction s arbitrary: w) auto

lemma findall_from_tokens:
  assumes "list_all (\<lambda>c. \<not> isspace c) w" and "t \<in> set (findall_from w s)"
  shows "t \<noteq> [] \<and> list_all (\<lambda>c. \<not> isspace c) t"
  using assms
proof (induction s arbitrary: w)
  case Nil
  then show ?case by (auto split: if_splits)
next
  case (Cons c s)
  show ?case
  proof (cases "isspace c")
    case True
    with Cons.prems have "t = w \<and> w \<noteq> [] \<or> t \<in> set (findall_from [] s)"
      by (auto split: if_splits)
    then show ?thesis using Cons.IH [of "[]"] Cons.prems(1) by auto
  next
    case False
    with Cons.prems have "t \<in> set (findall_from (w @ [c]) s)" by simp
    moreover have "list_all (\<lambda>c. \<not> isspace c) (w @ [c])" using False Cons.prems(1) by simp
    ultimately show ?thesis using Cons.IH by blast
  qed
qed

lemma anchor_cdata_list:
  "cdata_list_attribute ''a'' k \<longleftrightarrow> k \<in> set [''class'', ''accesskey'', ''dropzone'', ''rel'', ''rev'']"
  by (auto simp: cdata_list_attribute_def universal_cdata_list_attributes_def
        tag_cdata_list_attributes_def)

lemma search_tag_getitem: "search_tag nm attr t \<Longrightarrow> \<exists>v. getitem t attr = Inr v"
  by (cases t) auto

lemma find_tag_search: "find_tag t nm attr = Some tag \<Longrightarrow> search_tag nm attr tag"
proof -
  assume "find_tag t nm attr = Some tag"
  then obtain rs where "find_all t nm attr = tag # rs"
    by (auto simp: find_tag_def split: list.splits)
  then have "tag \<in> set (filter (search_tag nm attr) (descendants t))"
    by (simp add: find_all_def del: set_filter)
  then show ?thesis by simp
qed

lemma yield_links_error:
  assumes "snd (yield_links bj ls) = Some e"
  shows "(\<exists>l \<in> set ls. href_of l = Inl e) \<or> (\<exists>h. bj h = Inl e)"
  using assms
proof (induction ls)
  case Nil
  then show ?case by simp
next
  case (Cons l ls)
  show ?case
  proof (cases "href_of l")
    case (Inl x)
    with Cons.prems show ?thesis by simp
  next
    case (Inr h)
    show ?thesis
    proof (cases "bj h")
      case (Inl x)
      with Inr Cons.prems show ?thesis by auto
    next
      case u: (Inr u)
      with Inr Cons.prems have "snd (yield_links bj ls) = Some e"
        by (simp split: prod.splits)
      from Cons.IH [OF this] show ?thesis by auto
    qed
  qed
qed

lemma parse_links_error_accepted:
  assumes "feed html enc = Inr doc"
    and "snd (parse_links feed join html base_url enc) = Some e"
  shows "\<exists>b h. join b h = Inl e"
proof (cases "spec_effective_base join doc base_url")
  note unfold = parse_links_unfold [where feed = feed and html = html and enc = enc, OF assms(1)]
  case (Inl x)
  with assms have "x = e" by (simp add: unfold)
  with Inl show ?thesis
    by (auto simp: spec_effective_base_def split: option.splits sum.splits)
next
  note unfold = parse_links_unfold [where feed = feed and html = html and enc = enc, OF assms(1)]
  case (Inr base)
  let ?as = "anchors_with_href doc"
  from Inr assms have "snd (yield_links (basejoin join base) (map build ?as)) = Some e"
    by (simp add: unfold)
  from yield_links_error [OF this]
  have "(\<exists>a \<in> set ?as. href_of (build a) = Inl e) \<or> (\<exists>h. basejoin join base h = Inl e)"
    by auto
  moreover have "href_of (build a) \<noteq> Inl e" if "a \<in> set ?as" for a
    using that anchors_carry href_of_build by fastforce
  ultimately obtain h where "basejoin join base h = Inl e" by blast
  then show ?thesis by (auto simp: basejoin_def split: option.splits)
qed

lemma parse_links_error:
  assumes "snd (parse_links feed join html base_url enc) = Some e"
  shows "feed html enc = Inl e \<or> (\<exists>b h. join b h = Inl e)"
proof (cases "feed html enc")
  case (Inl x)
  with assms show ?thesis by (simp add: parse_links_rejected)
next
  case (Inr doc)
  from parse_links_error_accepted
         [where feed = feed and html = html and enc = enc, OF Inr assms]
  show ?thesis by blast
qed

section \<open>The project page loop\<close>

lemma collect_files_accepted:
  assumes "list_all (\<lambda>(t, u, a). succeeds (from_link (Link t u a) hint)) ts"
  shows "\<exists>ps. map Inr ps = map (\<lambda>(t, u, a). from_link (Link t u a) hint) ts
            \<and> collect_files from_link hint files ts r
                = (case r of None \<Rightarrow> Inr (files @ ps) | Some e \<Rightarrow> Inl e)"
  using assms
proof (induction ts arbitrary: files)
  case Nil
  then show ?case by (cases r) auto
next
  case (Cons x ts)
  obtain t u a where x: "x = (t, u, a)" by (cases x)
  from Cons.prems obtain p where p: "from_link (Link t u a) hint = Inr p"
    by (auto simp: x succeeds_def split: sum.splits)
  from Cons.prems have "list_all (\<lambda>(t, u, a). succeeds (from_link (Link t u a) hint)) ts"
    by simp
  from Cons.IH [OF this, of "files @ [p]"] obtain ps where
    ps: "map Inr ps = map (\<lambda>(t, u, a). from_link (Link t u a) hint) ts"
    and c: "collect_files from_link hint (files @ [p]) ts r
                = (case r of None \<Rightarrow> Inr ((files @ [p]) @ ps) | Some e \<Rightarrow> Inl e)"
    by blast
  have "map Inr (p # ps) = map (\<lambda>(t, u, a). from_link (Link t u a) hint) (x # ts)"
    by (simp add: x p ps)
  moreover have "collect_files from_link hint files (x # ts) r
                = (case r of None \<Rightarrow> Inr (files @ p # ps) | Some e \<Rightarrow> Inl e)"
    by (simp add: x p c split: option.splits)
  ultimately show ?case by blast
qed

lemma collect_files_first_rejected:
  assumes "list_all (\<lambda>(t, u, a). succeeds (from_link (Link t u a) hint)) pre"
    and "from_link (Link t u a) hint = Inl e"
  shows "collect_files from_link hint files (pre @ (t, u, a) # post) r = Inl e"
  using assms(1)
proof (induction pre arbitrary: files)
  case Nil
  then show ?case by (simp add: assms(2))
next
  case (Cons x pre)
  obtain t' u' a' where x: "x = (t', u', a')" by (cases x)
  from Cons.prems obtain p where p: "from_link (Link t' u' a') hint = Inr p"
    by (auto simp: x succeeds_def split: sum.splits)
  from Cons.prems have "list_all (\<lambda>(t, u, a). succeeds (from_link (Link t u a) hint)) pre"
    by simp
  from Cons.IH [OF this, of "files @ [p]"] show ?case
    by (simp add: x p)
qed

section \<open>The claims\<close>

text \<open>
  C1, as stated: for every page \<open>parse_links\<close> yields exactly one triple for each
  anchor that carries an \<open>href\<close>.  It fails on a page whose only anchor has the
  \<open>href\<close> \<open>//[\<close> when a base URL is supplied: the parser accepts the page, \<open>urljoin\<close>
  raises \<open>ValueError\<close> (an authority with an unmatched bracket), the exception leaves
  the generator, and no triple is yielded for the one anchor of the page.
\<close>

theorem parse_links_one_triple_counterexample:
  "markup_given unresolvable_page None = Inr unresolvable_page
   \<and> anchors_with_href unresolvable_page
     = [Tag ''a'' [(''href'', Some ''//['')] [PyString NavigableString ''broken'']]
   \<and> parse_links markup_given (urljoin any_host) unresolvable_page (Some ''http://a/'') None
     = ([], Some ValueError)"
  by code_simp

text \<open>
  C1, amended: when the parser accepts the page, and the resolution of the effective
  base and the resolution of the \<open>href\<close> of every anchor raise no error, \<open>parse_links\<close>
  ends normally and yields exactly one triple for each anchor that carries an \<open>href\<close>,
  in document order: the list of these anchors and the list of triples correspond
  position by position.  Anchors without an \<open>href\<close> are not among them and contribute
  no triple, and a page without such anchors yields the empty sequence.
\<close>

theorem parse_links_one_triple_per_anchor:
  assumes "feed html enc = Inr doc"
    and "spec_effective_base join doc base_url = Inr base"
    and "list_all (\<lambda>a. succeeds (basejoin join base (declared_href a)))
           (anchors_with_href doc)"
  shows "snd (parse_links feed join html base_url enc) = None
    \<and> list_all2
         (\<lambda>a (t, u, at). t = strip (concat (strings a))
                         \<and> basejoin join base (declared_href a) = Inr u
                         \<and> at = starttag_attrs ''a'' (attrs a))
         (anchors_with_href doc) (fst (parse_links feed join html base_url enc))
    \<and> (anchors_with_href doc = []
         \<longrightarrow> fst (parse_links feed join html base_url enc) = [])"
proof -
  let ?as = "anchors_with_href doc"
  let ?g = "parse_links feed join html base_url enc"
  have pl: "?g = yield_links (basejoin join base) (map build ?as)"
    using parse_links_unfold [where feed = feed and html = html and enc = enc, OF assms(1)]
    by (simp add: assms(2))
  have ok: "\<forall>l \<in> set (map build ?as). \<exists>h u. href_of l = Inr h \<and> basejoin join base h = Inr u"
  proof
    fix l assume "l \<in> set (map build ?as)"
    then obtain a where a: "a \<in> set ?as" and l: "l = build a" by auto
    from a assms(3) have "succeeds (basejoin join base (declared_href a))"
      by (simp add: list_all_iff)
    then obtain u where "basejoin join base (declared_href a) = Inr u"
      by (auto simp: succeeds_def split: sum.splits)
    moreover have "href_of l = Inr (declared_href a)"
      using a l anchors_carry href_of_build by blast
    ultimately show "\<exists>h u. href_of l = Inr h \<and> basejoin join base h = Inr u" by blast
  qed
  from yield_links_complete [OF ok]
  have snd: "snd ?g = None" and len: "length (fst ?g) = length ?as"
    by (simp_all add: pl)
  have "list_all2
         (\<lambda>a (t, u, at). t = strip (concat (strings a))
                         \<and> basejoin join base (declared_href a) = Inr u
                         \<and> at = starttag_attrs ''a'' (attrs a)) ?as (fst ?g)"
  proof (rule list_all2_all_nthI)
    show "length ?as = length (fst ?g)" by (simp add: len)
  next
    fix i assume "i < length ?as"
    then have "i < length (fst ?g)" by (simp add: len)
    from parse_links_nth [where feed = feed and html = html and enc = enc, OF assms(1) this]
    show "(case fst ?g ! i of (t, u, at) \<Rightarrow> t = strip (concat (strings (?as ! i)))
                         \<and> basejoin join base (declared_href (?as ! i)) = Inr u
                         \<and> at = starttag_attrs ''a'' (attrs (?as ! i)))"
      by (auto simp: assms(2) split: prod.splits)
  qed
  moreover have "?as = [] \<longrightarrow> fst ?g = []" using len by auto
  ultimately show ?thesis using snd by blast
qed

text \<open>C1, witness: the index page is accepted; it has two anchors with an \<open>href\<close> and
  one without; with the base URL \<open>http://x/\<close> both resolve and two triples are
  yielded.\<close>

theorem parse_links_one_triple_per_anchor_witness:
  "markup_given index_page None = Inr index_page
   \<and> spec_effective_base (urljoin any_host) index_page (Some ''http://x/'')
     = Inr (Some ''http://x/'')
   \<and> list_all (\<lambda>a. succeeds (basejoin (urljoin any_host) (Some ''http://x/'') (declared_href a)))
        (anchors_with_href index_page)
   \<and> snd (parse_links markup_given (urljoin any_host) index_page (Some ''http://x/'') None) = None
   \<and> length (fst (parse_links markup_given (urljoin any_host) index_page (Some ''http://x/'') None))
       = length (anchors_with_href index_page)
   \<and> length (anchors_with_href index_page) = 2"
proof -
  have m: "markup_given index_page None = Inr index_page"
    by (simp add: markup_given_def)
  have h1: "spec_effective_base (urljoin any_host) index_page (Some ''http://x/'')
     = Inr (Some ''http://x/'')"
    by code_simp
  have h2: "list_all (\<lambda>a. succeeds (basejoin (urljoin any_host) (Some ''http://x/'') (declared_href a)))
        (anchors_with_href index_page)"
    by code_simp
  have h3: "length (anchors_with_href index_page) = 2"
    by code_simp
  from parse_links_one_triple_per_anchor
         [where feed = markup_given and html = index_page and enc = None, OF m h1 h2] m h1 h2 h3
  show ?thesis
    by (auto dest: list_all2_lengthD)
qed

text \<open>
  C2: the base URL that \<open>parse_links\<close> computes in lines 72 to 77 is the effective
  base of the specification: the \<open>href\<close> of the first \<open>base\<close> element with an \<open>href\<close>
  when no base URL is supplied, the resolution of that \<open>href\<close> against the supplied
  base URL when there is one, and the supplied base URL (possibly none) when the page
  has no such element; the links are resolved against it.  With the base URL
  \<open>http://a/b/\<close> and the declared base \<open>c/\<close> it is \<open>http://a/b/c/\<close>, and the anchor
  \<open>href\<close> \<open>d\<close> resolves to \<open>http://a/b/c/d\<close>.
\<close>

theorem parse_links_effective_base:
  "(feed html enc = Inr doc \<longrightarrow>
      BeautifulSoup feed html enc = Inr (root_tag doc)
      \<and> effective_base join (root_tag doc) base_url
        = (case first_base doc of
             None \<Rightarrow> Inr base_url
           | Some e \<Rightarrow>
               (case base_url of
                  None \<Rightarrow> Inr (Some (declared_href e))
                | Some b \<Rightarrow> (case join b (declared_href e) of
                               Inl x \<Rightarrow> Inl x
                             | Inr u \<Rightarrow> Inr (Some u)))))
   \<and> parse_links feed join html base_url enc
     = (case BeautifulSoup feed html enc of
          Inl x \<Rightarrow> ([], Some x)
        | Inr soup \<Rightarrow>
            (case effective_base join soup base_url of
               Inl x \<Rightarrow> ([], Some x)
             | Inr base \<Rightarrow>
                 yield_links (basejoin join base) (find_all soup ''a'' ''href'')))
   \<and> effective_base (urljoin host_ok) (root_tag base_page) (Some ''http://a/b/'')
       = Inr (Some ''http://a/b/c/'')
   \<and> parse_links markup_given (urljoin host_ok) base_page (Some ''http://a/b/'') None
     = ([(''t'', ''http://a/b/c/d'', [(''href'', Str ''d'')])], None)"
proof -
  have 1: "feed html enc = Inr doc \<longrightarrow>
      BeautifulSoup feed html enc = Inr (root_tag doc)
      \<and> effective_base join (root_tag doc) base_url
        = (case first_base doc of
             None \<Rightarrow> Inr base_url
           | Some e \<Rightarrow>
               (case base_url of
                  None \<Rightarrow> Inr (Some (declared_href e))
                | Some b \<Rightarrow> (case join b (declared_href e) of
                               Inl x \<Rightarrow> Inl x
                             | Inr u \<Rightarrow> Inr (Some u))))"
    by (simp add: BeautifulSoup_def effective_base_soup spec_effective_base_def)
  have 2: "parse_links feed join html base_url enc
     = (case BeautifulSoup feed html enc of
          Inl x \<Rightarrow> ([], Some x)
        | Inr soup \<Rightarrow>
            (case effective_base join soup base_url of
               Inl x \<Rightarrow> ([], Some x)
             | Inr base \<Rightarrow>
                 yield_links (basejoin join base) (find_all soup ''a'' ''href'')))"
    by (simp add: parse_links_def)
  have 3: "effective_base (urljoin host_ok) (root_tag base_page) (Some ''http://a/b/'')
       = Inr (Some ''http://a/b/c/'')"
    by code_simp
  have 4: "parse_links markup_given (urljoin host_ok) base_page (Some ''http://a/b/'') None
     = ([(''t'', ''http://a/b/c/d'', [(''href'', Str ''d'')])], None)"
    by code_simp
  from 1 2 3 4 show ?thesis by blast
qed

text \<open>C2, witness: the three cases on concrete pages.  The page \<open>base_page\<close> declares
  the base \<open>c/\<close>; the page \<open>text_page\<close> has no \<open>base\<close> element.\<close>

theorem parse_links_effective_base_witness:
  "markup_given base_page None = Inr base_page
   \<and> first_base base_page = Some (Tag ''base'' [(''href'', Some ''c/'')] [])
   \<and> effective_base (urljoin any_host) (root_tag base_page) None = Inr (Some ''c/'')
   \<and> effective_base (urljoin any_host) (root_tag base_page) (Some ''http://a/b/'')
       = Inr (Some ''http://a/b/c/'')
   \<and> markup_given text_page None = Inr text_page
   \<and> first_base text_page = None
   \<and> effective_base (urljoin any_host) (root_tag text_page) (Some ''http://a/b/'')
       = Inr (Some ''http://a/b/'')
   \<and> effective_base (urljoin any_host) (root_tag text_page) None = Inr None"
proof -
  have mb: "markup_given base_page None = Inr base_page"
    and mt: "markup_given text_page None = Inr text_page"
    by (simp_all add: markup_given_def)
  have b: "first_base base_page = Some (Tag ''base'' [(''href'', Some ''c/'')] [])"
    by code_simp
  have t: "first_base text_page = None"
    by code_simp
  have d: "declared_href (Tag ''base'' [(''href'', Some ''c/'')] []) = ''c/''"
    by code_simp
  have j: "urljoin any_host ''http://a/b/'' ''c/'' = Inr ''http://a/b/c/''"
    by code_simp
  have e: "effective_base (urljoin any_host) (root_tag doc) base_url
        = (case first_base doc of
             None \<Rightarrow> Inr base_url
           | Some e \<Rightarrow>
               (case base_url of
                  None \<Rightarrow> Inr (Some (declared_href e))
                | Some b \<Rightarrow> (case urljoin any_host b (declared_href e) of
                               Inl x \<Rightarrow> Inl x
                             | Inr u \<Rightarrow> Inr (Some u))))"
    if "markup_given doc None = Inr doc" for doc base_url
    using parse_links_effective_base
            [of markup_given doc None doc "urljoin any_host" base_url any_host] that
    by (rule conjunct1 [THEN mp, THEN conjunct2])
  have 1: "effective_base (urljoin any_host) (root_tag base_page) None = Inr (Some ''c/'')"
    unfolding e [OF mb] by (simp add: b d)
  have 2: "effective_base (urljoin any_host) (root_tag base_page) (Some ''http://a/b/'')
       = Inr (Some ''http://a/b/c/'')"
    unfolding e [OF mb] by (simp add: b d j)
  have 3: "effective_base (urljoin any_host) (root_tag text_page) (Some ''http://a/b/'')
       = Inr (Some ''http://a/b/'')"
    unfolding e [OF mt] by (simp add: t)
  have 4: "effective_base (urljoin any_host) (root_tag text_page) None = Inr None"
    unfolding e [OF mt] by (simp add: t)
  from mb mt b t 1 2 3 4 show ?thesis by simp
qed

text \<open>
  C3: for the i-th triple yielded, the URL is the \<open>href\<close> written on the i-th anchor
  with an \<open>href\<close>, resolved against the effective base when there is one, and that
  \<open>href\<close> unchanged when there is none.  In the terms of the page: when the page has
  a \<open>base\<close> element with an \<open>href\<close> and a base URL is supplied, the link is resolved
  against the resolution of the declared base against the supplied one; when only the
  page declares a base, against the declared base; when only a base URL is supplied,
  against it; and when no base URL is supplied and the page has no \<open>base\<close> element
  with an \<open>href\<close>, nothing is resolved and the \<open>href\<close> is returned as written.
\<close>

theorem parse_links_url:
  assumes "feed html enc = Inr doc"
    and "i < length (fst (parse_links feed join html base_url enc))"
  shows "(\<forall>e b. first_base doc = Some e \<and> base_url = Some b
            \<longrightarrow> (\<exists>eb. join b (declared_href e) = Inr eb
                   \<and> join eb (declared_href (anchors_with_href doc ! i))
                       = Inr (fst (snd (fst (parse_links feed join html base_url enc) ! i)))))
    \<and> (\<forall>e. first_base doc = Some e \<and> base_url = None
            \<longrightarrow> join (declared_href e) (declared_href (anchors_with_href doc ! i))
                  = Inr (fst (snd (fst (parse_links feed join html base_url enc) ! i))))
    \<and> (\<forall>b. first_base doc = None \<and> base_url = Some b
            \<longrightarrow> join b (declared_href (anchors_with_href doc ! i))
                  = Inr (fst (snd (fst (parse_links feed join html base_url enc) ! i))))
    \<and> (first_base doc = None \<and> base_url = None
            \<longrightarrow> fst (snd (fst (parse_links feed join html base_url enc) ! i))
                  = declared_href (anchors_with_href doc ! i))"
proof -
  let ?h = "declared_href (anchors_with_href doc ! i)"
  let ?u = "fst (snd (fst (parse_links feed join html base_url enc) ! i))"
  from parse_links_nth [where feed = feed and html = html and enc = enc, OF assms]
  obtain base where
    base: "spec_effective_base join doc base_url = Inr base" and
    u: "basejoin join base ?h = Inr ?u"
    by blast
  have 1: "\<exists>eb. join b (declared_href e) = Inr eb \<and> join eb ?h = Inr ?u"
    if "first_base doc = Some e" and "base_url = Some b" for e b
    using base u that
    by (auto simp: spec_effective_base_def basejoin_def split: sum.splits)
  have 2: "join (declared_href e) ?h = Inr ?u"
    if "first_base doc = Some e" and "base_url = None" for e
    using base u that
    by (auto simp: spec_effective_base_def basejoin_def)
  have 3: "join b ?h = Inr ?u"
    if "first_base doc = None" and "base_url = Some b" for b
    using base u that
    by (auto simp: spec_effective_base_def basejoin_def)
  have 4: "?u = ?h"
    if "first_base doc = None" and "base_url = None"
    using base u that
    by (auto simp: spec_effective_base_def basejoin_def)
  from 1 2 3 4 show ?thesis by blast
qed

text \<open>C3, witness: the four cases.  The page \<open>base_page\<close> declares the base \<open>c/\<close> and
  has a link to \<open>d\<close>; the index page and \<open>text_page\<close> declare no base.\<close>

theorem parse_links_url_witness:
  "markup_given base_page None = Inr base_page
   \<and> first_base base_page = Some (Tag ''base'' [(''href'', Some ''c/'')] [])
   \<and> 0 < length (fst (parse_links markup_given (urljoin any_host) base_page (Some ''http://a/b/'') None))
   \<and> fst (snd (fst (parse_links markup_given (urljoin any_host) base_page (Some ''http://a/b/'') None) ! 0))
       = ''http://a/b/c/d''
   \<and> 0 < length (fst (parse_links markup_given (urljoin any_host) base_page None None))
   \<and> fst (snd (fst (parse_links markup_given (urljoin any_host) base_page None None) ! 0))
       = ''c/d''
   \<and> markup_given index_page None = Inr index_page
   \<and> first_base index_page = None
   \<and> 1 < length (fst (parse_links markup_given (urljoin any_host) index_page (Some ''http://x/'') None))
   \<and> fst (snd (fst (parse_links markup_given (urljoin any_host) index_page (Some ''http://x/'') None) ! 1))
       = ''http://x/b''
   \<and> 1 < length (fst (parse_links markup_given (urljoin any_host) index_page None None))
   \<and> fst (snd (fst (parse_links markup_given (urljoin any_host) index_page None None) ! 1))
       = ''/b''"
proof -
  have mb: "markup_given base_page None = Inr base_page"
    and mi: "markup_given index_page None = Inr index_page"
    by (simp_all add: markup_given_def)
  have fb: "first_base base_page = Some (Tag ''base'' [(''href'', Some ''c/'')] [])"
    by code_simp
  have fi: "first_base index_page = None"
    by code_simp
  have db: "declared_href (Tag ''base'' [(''href'', Some ''c/'')] []) = ''c/''"
    by code_simp
  have hb: "declared_href (anchors_with_href base_page ! 0) = ''d''"
    by code_simp
  have hi: "declared_href (anchors_with_href index_page ! 1) = ''/b''"
    by code_simp
  have j1: "urljoin any_host ''http://a/b/'' ''c/'' = Inr ''http://a/b/c/''"
    by code_simp
  have j2: "urljoin any_host ''http://a/b/c/'' ''d'' = Inr ''http://a/b/c/d''"
    by code_simp
  have j3: "urljoin any_host ''c/'' ''d'' = Inr ''c/d''"
    by code_simp
  have j4: "urljoin any_host ''http://x/'' ''/b'' = Inr ''http://x/b''"
    by code_simp
  have l1: "0 < length (fst (parse_links markup_given (urljoin any_host) base_page (Some ''http://a/b/'') None))"
    by code_simp
  have l2: "0 < length (fst (parse_links markup_given (urljoin any_host) base_page None None))"
    by code_simp
  have l3: "1 < length (fst (parse_links markup_given (urljoin any_host) index_page (Some ''http://x/'') None))"
    by code_simp
  have l4: "1 < length (fst (parse_links markup_given (urljoin any_host) index_page None None))"
    by code_simp
  from parse_links_url [where feed = markup_given and html = base_page and enc = None, OF mb l1] fb
  obtain eb where eb: "urljoin any_host ''http://a/b/'' (declared_href (Tag ''base'' [(''href'', Some ''c/'')] [])) = Inr eb"
    and ue: "urljoin any_host eb (declared_href (anchors_with_href base_page ! 0))
           = Inr (fst (snd (fst (parse_links markup_given (urljoin any_host) base_page (Some ''http://a/b/'') None) ! 0)))"
    by blast
  from eb have "eb = ''http://a/b/c/''"
    by (simp add: db j1)
  with ue have u1: "fst (snd (fst (parse_links markup_given (urljoin any_host) base_page (Some ''http://a/b/'') None) ! 0))
       = ''http://a/b/c/d''"
    by (simp add: hb j2)
  from parse_links_url [where feed = markup_given and html = base_page and enc = None, OF mb l2] fb
  have "urljoin any_host (declared_href (Tag ''base'' [(''href'', Some ''c/'')] []))
          (declared_href (anchors_with_href base_page ! 0))
           = Inr (fst (snd (fst (parse_links markup_given (urljoin any_host) base_page None None) ! 0)))"
    by blast
  then have u2: "fst (snd (fst (parse_links markup_given (urljoin any_host) base_page None None) ! 0)) = ''c/d''"
    by (simp add: db hb j3)
  from parse_links_url [where feed = markup_given and html = index_page and enc = None, OF mi l3] fi
  have "urljoin any_host ''http://x/'' (declared_href (anchors_with_href index_page ! 1))
           = Inr (fst (snd (fst (parse_links markup_given (urljoin any_host) index_page (Some ''http://x/'') None) ! 1)))"
    by blast
  then have u3: "fst (snd (fst (parse_links markup_given (urljoin any_host) index_page (Some ''http://x/'') None) ! 1))
       = ''http://x/b''"
    by (simp add: hi j4 del: One_nat_def)
  from parse_links_url [where feed = markup_given and html = index_page and enc = None, OF mi l4] fi
  have "fst (snd (fst (parse_links markup_given (urljoin any_host) index_page None None) ! 1))
           = declared_href (anchors_with_href index_page ! 1)"
    by blast
  then have u4: "fst (snd (fst (parse_links markup_given (urljoin any_host) index_page None None) ! 1)) = ''/b''"
    by (simp add: hi del: One_nat_def)
  from mb mi fb fi l1 l2 l3 l4 u1 u2 u3 u4 show ?thesis
    by (simp del: One_nat_def)
qed

text \<open>
  C4, as stated: an attribute with several tokens is exposed as the sequence of its
  tokens and any other attribute as the plain string.  It fails on an anchor written
  with \<open>title="a b"\<close> and \<open>class="a"\<close>: the value of \<open>title\<close> has two tokens and is
  exposed as the string \<open>a b\<close>, and the value of \<open>class\<close> has one token and is exposed
  as a list of one string.  What decides is the name of the attribute, not its value.
\<close>

theorem parse_links_attributes_counterexample:
  "markup_given title_page None = Inr title_page
   \<and> attrs (anchors_with_href title_page ! 0)
       = [(''href'', Some ''x''), (''title'', Some ''a b''), (''class'', Some ''a'')]
   \<and> parse_links markup_given (urljoin any_host) title_page None None
       = ([(''t'', ''x'',
            [(''href'', Str ''x''), (''title'', Str ''a b''), (''class'', Toks [''a''])])],
          None)"
  by code_simp

text \<open>
  C4, amended: the attributes of the i-th triple are those of the i-th anchor with
  an \<open>href\<close>.  The keys are the attribute names written on the anchor, in lower case,
  each once.  The value under a key comes from the value written for that attribute:
  it is the list of the tokens of that value, whatever their number, when the
  attribute is one that the parser lists as multi-valued for an anchor (\<open>class\<close>,
  \<open>accesskey\<close>, \<open>dropzone\<close>, \<open>rel\<close>, \<open>rev\<close>), and the string itself, whatever it
  holds, for any other attribute (as \<open>data-x\<close> or \<open>title\<close>).  The \<open>href\<close> as written is
  the string under the key \<open>href\<close>.  The anchor written with \<open>HREF="/b"\<close>,
  \<open>class="a b"\<close>, \<open>data-x="1"\<close> and \<open>title="a b"\<close> has \<open>/b\<close> under \<open>href\<close>, the list of
  \<open>a\<close> and \<open>b\<close> under \<open>class\<close>, the string \<open>1\<close> under \<open>data-x\<close> and the string \<open>a b\<close>
  under \<open>title\<close>.
\<close>

theorem parse_links_attributes:
  assumes "feed html enc = Inr doc"
    and "i < length (fst (parse_links feed join html base_url enc))"
  shows "set (map fst (snd (snd (fst (parse_links feed join html base_url enc) ! i))))
           = set (map (\<lambda>(k, v). lower k) (attrs (anchors_with_href doc ! i)))
    \<and> list_all (\<lambda>k. lower k = k)
         (map fst (snd (snd (fst (parse_links feed join html base_url enc) ! i))))
    \<and> distinct (map fst (snd (snd (fst (parse_links feed join html base_url enc) ! i))))
    \<and> (\<forall>k. map_of (snd (snd (fst (parse_links feed join html base_url enc) ! i))) k
             = map_option
                 (\<lambda>v. if k \<in> set [''class'', ''accesskey'', ''dropzone'', ''rel'', ''rev'']
                      then Toks (nonwhitespace_findall v) else Str v)
                 (written_value k (attrs (anchors_with_href doc ! i))))
    \<and> map_of (snd (snd (fst (parse_links feed join html base_url enc) ! i))) ''href''
         = Some (Str (declared_href (anchors_with_href doc ! i)))
    \<and> starttag_attrs ''a''
         [(''HREF'', Some ''/b''), (''class'', Some ''a b''), (''data-x'', Some ''1''),
          (''title'', Some ''a b'')]
         = [(''href'', Str ''/b''), (''class'', Toks [''a'', ''b'']), (''data-x'', Str ''1''),
            (''title'', Str ''a b'')]"
proof -
  let ?a = "anchors_with_href doc ! i"
  let ?at = "snd (snd (fst (parse_links feed join html base_url enc) ! i))"
  from parse_links_nth [where feed = feed and html = html and enc = enc, OF assms]
  have len: "i < length (anchors_with_href doc)"
    and at: "?at = starttag_attrs ''a'' (attrs ?a)"
    by simp_all
  from len have c: "carries ''a'' ''href'' ?a"
    using anchors_carry nth_mem by blast
  have 1: "set (map fst ?at) = set (map (\<lambda>(k, v). lower k) (attrs ?a))"
    unfolding at by (rule keys_starttag_attrs)
  have 2: "list_all (\<lambda>k. lower k = k) (map fst ?at)"
    unfolding list_all_iff 1 by (auto simp: lower_idem)
  have 3: "distinct (map fst ?at)"
    unfolding at by (rule distinct_starttag_attrs)
  have 4: "\<forall>k. map_of ?at k
             = map_option
                 (\<lambda>v. if k \<in> set [''class'', ''accesskey'', ''dropzone'', ''rel'', ''rev'']
                      then Toks (nonwhitespace_findall v) else Str v)
                 (written_value k (attrs ?a))"
    unfolding at by (simp only: map_of_starttag_attrs anchor_cdata_list) simp
  from c have "written_value ''href'' (attrs ?a) \<noteq> None"
    by (cases ?a) (simp_all add: written_value_None)
  then have 5: "map_of ?at ''href'' = Some (Str (declared_href ?a))"
    unfolding at by (auto simp: map_of_starttag_attrs href_not_cdata_list declared_href_def)
  have 6: "starttag_attrs ''a''
         [(''HREF'', Some ''/b''), (''class'', Some ''a b''), (''data-x'', Some ''1''),
          (''title'', Some ''a b'')]
         = [(''href'', Str ''/b''), (''class'', Toks [''a'', ''b'']), (''data-x'', Str ''1''),
            (''title'', Str ''a b'')]"
    by code_simp
  from 1 2 3 4 5 6 show ?thesis by blast
qed

text \<open>C4, witness: the second link of the index page.\<close>

theorem parse_links_attributes_witness:
  "markup_given index_page None = Inr index_page
   \<and> 1 < length (fst (parse_links markup_given (urljoin any_host) index_page None None))
   \<and> attrs (anchors_with_href index_page ! 1)
       = [(''HREF'', Some ''/b''), (''class'', Some ''a b''), (''data-x'', Some ''1''),
          (''REL'', Some ''nofollow  noopener'')]
   \<and> snd (snd (fst (parse_links markup_given (urljoin any_host) index_page None None) ! 1))
       = [(''href'', Str ''/b''), (''class'', Toks [''a'', ''b'']), (''data-x'', Str ''1''),
          (''rel'', Toks [''nofollow'', ''noopener''])]
   \<and> map_of (snd (snd (fst (parse_links markup_given (urljoin any_host) index_page None None) ! 1)))
        ''href'' = Some (Str ''/b'')"
proof -
  have m: "markup_given index_page None = Inr index_page"
    by (simp add: markup_given_def)
  have l: "1 < length (fst (parse_links markup_given (urljoin any_host) index_page None None))"
    by code_simp
  have a: "attrs (anchors_with_href index_page ! 1)
       = [(''HREF'', Some ''/b''), (''class'', Some ''a b''), (''data-x'', Some ''1''),
          (''REL'', Some ''nofollow  noopener'')]"
    by code_simp
  have p: "snd (snd (fst (parse_links markup_given (urljoin any_host) index_page None None) ! 1))
       = [(''href'', Str ''/b''), (''class'', Toks [''a'', ''b'']), (''data-x'', Str ''1''),
          (''rel'', Toks [''nofollow'', ''noopener''])]"
    by code_simp
  have d: "declared_href (anchors_with_href index_page ! 1) = ''/b''"
    by code_simp
  from parse_links_attributes [where feed = markup_given and html = index_page and enc = None, OF m l]
  have "map_of (snd (snd (fst (parse_links markup_given (urljoin any_host) index_page None None) ! 1)))
          ''href''
        = Some (Str (declared_href (anchors_with_href index_page ! 1)))"
    by blast
  then have h: "map_of (snd (snd (fst (parse_links markup_given (urljoin any_host) index_page None None) ! 1)))
        ''href'' = Some (Str ''/b'')"
    by (simp only: d)
  from m l a p h show ?thesis by (simp only: simp_thms)
qed

text \<open>
  C5: the text of the i-th triple is the concatenation of the text nodes below the
  i-th anchor, stripped: the concatenation is that text between a run of white space
  before it and a run of white space after it, and the text itself, when it is not
  empty, neither starts nor ends with white space, so that the white space inside is
  kept.  Text nodes concatenating to two spaces, \<open>foo\<close>, space, newline, space, \<open>bar\<close>
  and two spaces give \<open>foo\<close>, space, newline, space, \<open>bar\<close>.
\<close>

theorem parse_links_text:
  assumes "feed html enc = Inr doc"
    and "i < length (fst (parse_links feed join html base_url enc))"
  shows "fst (fst (parse_links feed join html base_url enc) ! i)
           = strip (concat (strings (anchors_with_href doc ! i)))
    \<and> (\<exists>l r. concat (strings (anchors_with_href doc ! i))
                = l @ fst (fst (parse_links feed join html base_url enc) ! i) @ r
              \<and> list_all isspace l \<and> list_all isspace r)
    \<and> (fst (fst (parse_links feed join html base_url enc) ! i) \<noteq> []
         \<longrightarrow> \<not> isspace (hd (fst (fst (parse_links feed join html base_url enc) ! i)))
           \<and> \<not> isspace (last (fst (fst (parse_links feed join html base_url enc) ! i))))
    \<and> strip (concat [''  '', ''foo'', '' '' @ [CHR 0x0A] @ '' '', ''bar'', ''  ''])
         = ''foo '' @ [CHR 0x0A] @ '' bar''"
proof -
  let ?s = "concat (strings (anchors_with_href doc ! i))"
  let ?t = "fst (fst (parse_links feed join html base_url enc) ! i)"
  from parse_links_nth [where feed = feed and html = html and enc = enc, OF assms]
  have t: "?t = strip ?s" by simp
  have "?s = takeWhile isspace ?s @ ?t @ rev (takeWhile isspace (rev (dropWhile isspace ?s)))"
    unfolding t by (rule strip_decomp)
  moreover have "list_all isspace (takeWhile isspace ?s)"
    by (auto simp: list_all_iff dest: set_takeWhileD)
  moreover have "list_all isspace (rev (takeWhile isspace (rev (dropWhile isspace ?s))))"
    by (auto simp: list_all_iff dest: set_takeWhileD)
  ultimately have 2: "\<exists>l r. ?s = l @ ?t @ r \<and> list_all isspace l \<and> list_all isspace r"
    by blast
  have 3: "?t \<noteq> [] \<longrightarrow> \<not> isspace (hd ?t) \<and> \<not> isspace (last ?t)"
    unfolding t using strip_ends by blast
  have 4: "strip (concat [''  '', ''foo'', '' '' @ [CHR 0x0A] @ '' '', ''bar'', ''  ''])
         = ''foo '' @ [CHR 0x0A] @ '' bar''"
    by code_simp
  from t 2 3 4 show ?thesis by blast
qed

text \<open>C5, witness: the anchor of \<open>text_page\<close> has these text nodes below it, two of them
  inside nested tags, and a comment, which is not text.\<close>

theorem parse_links_text_witness:
  "markup_given text_page None = Inr text_page
   \<and> 0 < length (fst (parse_links markup_given (urljoin any_host) text_page None None))
   \<and> strings (anchors_with_href text_page ! 0)
       = [''  '', ''foo'', '' '' @ [CHR 0x0A] @ '' '', ''bar'', ''  '']
   \<and> fst (fst (parse_links markup_given (urljoin any_host) text_page None None) ! 0)
       = ''foo '' @ [CHR 0x0A] @ '' bar''"
proof -
  have m: "markup_given text_page None = Inr text_page"
    by (simp add: markup_given_def)
  have l: "0 < length (fst (parse_links markup_given (urljoin any_host) text_page None None))"
    by code_simp
  have s: "strings (anchors_with_href text_page ! 0)
       = [''  '', ''foo'', '' '' @ [CHR 0x0A] @ '' '', ''bar'', ''  '']"
    by code_simp
  from parse_links_text [where feed = markup_given and html = text_page and enc = None, OF m l]
  have "fst (fst (parse_links markup_given (urljoin any_host) text_page None None) ! 0)
          = strip (concat (strings (anchors_with_href text_page ! 0)))
      \<and> strip (concat [''  '', ''foo'', '' '' @ [CHR 0x0A] @ '' '', ''bar'', ''  ''])
         = ''foo '' @ [CHR 0x0A] @ '' bar''"
    by blast
  with m l s show ?thesis by simp
qed

text \<open>
  C6: the run of \<open>parse_simple_index\<close> is the run of \<open>parse_links\<close> on the same
  arguments with every triple cut down to its text and its URL: the same number of
  items in the same order, and the same end.  The index page with the links \<open>PkgA\<close>
  and \<open>PkgB\<close> gives these two pairs.
\<close>

theorem parse_simple_index_projection:
  "parse_simple_index feed join html base_url enc
     = (map (\<lambda>(t, u, a). (t, u)) (fst (parse_links feed join html base_url enc)),
        snd (parse_links feed join html base_url enc))
   \<and> length (fst (parse_simple_index feed join html base_url enc))
       = length (fst (parse_links feed join html base_url enc))
   \<and> parse_simple_index markup_given (urljoin host_ok) index_page (Some ''http://x/'') None
       = ([(''PkgA'', ''http://x/a''), (''PkgB'', ''http://x/b'')], None)"
proof -
  have 1: "parse_simple_index feed join html base_url enc
     = (map (\<lambda>(t, u, a). (t, u)) (fst (parse_links feed join html base_url enc)),
        snd (parse_links feed join html base_url enc))"
    by (simp add: parse_simple_index_def index_pairs_map split: prod.splits)
  have 2: "parse_simple_index markup_given (urljoin host_ok) index_page (Some ''http://x/'') None
       = ([(''PkgA'', ''http://x/a''), (''PkgB'', ''http://x/b'')], None)"
    by code_simp
  from 1 2 show ?thesis by simp
qed

text \<open>C6, witness: on the page whose anchor cannot be resolved both generators yield
  nothing and end with the same \<open>ValueError\<close>.\<close>

theorem parse_simple_index_projection_witness:
  "parse_links markup_given (urljoin any_host) unresolvable_page (Some ''http://a/'') None
     = ([], Some ValueError)
   \<and> parse_simple_index markup_given (urljoin any_host) unresolvable_page (Some ''http://a/'') None
     = ([], Some ValueError)"
proof -
  have p: "parse_links markup_given (urljoin any_host) unresolvable_page (Some ''http://a/'') None
     = ([], Some ValueError)"
    by code_simp
  from parse_simple_index_projection
         [of markup_given "urljoin any_host" unresolvable_page "Some ''http://a/''" None any_host]
  have "parse_simple_index markup_given (urljoin any_host) unresolvable_page (Some ''http://a/'') None
     = (map (\<lambda>(t, u, a). (t, u))
          (fst (parse_links markup_given (urljoin any_host) unresolvable_page (Some ''http://a/'') None)),
        snd (parse_links markup_given (urljoin any_host) unresolvable_page (Some ''http://a/'') None))"
    by (rule conjunct1)
  with p show ?thesis by simp
qed

text \<open>
  C7, as stated: for every input \<open>parse_project_page\<close> returns the list of the records
  of the triples that \<open>parse_links\<close> yields.  It fails on a page whose first anchor
  resolves and whose second does not: \<open>parse_links\<close> yields one triple and then ends
  with \<open>ValueError\<close>; the exception leaves the loop of \<open>parse_project_page\<close>, which
  returns no list, although the classifier accepts every link.
\<close>

theorem parse_project_page_counterexample:
  "parse_links markup_given (urljoin any_host) half_resolvable_page (Some ''http://a/'') None
     = ([(''first'', ''http://a/ok'', [(''href'', Str ''ok'')])], Some ValueError)
   \<and> parse_project_page markup_given (urljoin any_host) keep_link half_resolvable_page
        (Some ''http://a/'') None None = Inl ValueError"
  by code_simp

text \<open>
  C7, amended: when \<open>parse_links\<close> ends without an exception and the classifier raises
  for none of the triples, \<open>parse_project_page\<close> returns a list that holds, for each
  triple yielded by \<open>parse_links\<close> and in the same order, exactly the record that the
  classifier returns for the \<open>Link\<close> made from that triple and the project hint.
  Otherwise the first exception propagates and no list is returned: the exception of
  the classifier for the first triple it rejects, or, when the classifier accepts
  every triple yielded, the exception that ended \<open>parse_links\<close>.
\<close>

theorem parse_project_page_records:
  "(snd (parse_links feed join html base_url enc) = None
      \<and> list_all (\<lambda>(t, u, a). succeeds (from_link (Link t u a) project_hint))
           (fst (parse_links feed join html base_url enc))
    \<longrightarrow> (\<exists>files. parse_project_page feed join from_link html base_url enc project_hint = Inr files
           \<and> map Inr files
               = map (\<lambda>(t, u, a). from_link (Link t u a) project_hint)
                   (fst (parse_links feed join html base_url enc))))
   \<and> (\<forall>e. snd (parse_links feed join html base_url enc) = Some e
          \<and> list_all (\<lambda>(t, u, a). succeeds (from_link (Link t u a) project_hint))
               (fst (parse_links feed join html base_url enc))
        \<longrightarrow> parse_project_page feed join from_link html base_url enc project_hint = Inl e)
   \<and> (\<forall>pre t u a post e.
          fst (parse_links feed join html base_url enc) = pre @ (t, u, a) # post
          \<and> list_all (\<lambda>(t, u, a). succeeds (from_link (Link t u a) project_hint)) pre
          \<and> from_link (Link t u a) project_hint = Inl e
        \<longrightarrow> parse_project_page feed join from_link html base_url enc project_hint = Inl e)"
proof -
  obtain ts r where g: "parse_links feed join html base_url enc = (ts, r)"
    by (cases "parse_links feed join html base_url enc")
  have p: "parse_project_page feed join from_link html base_url enc project_hint
             = collect_files from_link project_hint [] ts r"
    by (simp add: parse_project_page_def g)
  have 1: "\<exists>files. collect_files from_link project_hint [] ts r = Inr files
           \<and> map Inr files = map (\<lambda>(t, u, a). from_link (Link t u a) project_hint) ts"
    if "r = None" and "list_all (\<lambda>(t, u, a). succeeds (from_link (Link t u a) project_hint)) ts"
    using collect_files_accepted
            [where from_link = from_link and hint = project_hint and ts = ts
               and files = "[]" and r = r, OF that(2)] that(1)
    by auto
  have 2: "collect_files from_link project_hint [] ts r = Inl e"
    if "r = Some e" and "list_all (\<lambda>(t, u, a). succeeds (from_link (Link t u a) project_hint)) ts"
    for e
    using collect_files_accepted
            [where from_link = from_link and hint = project_hint and ts = ts
               and files = "[]" and r = r, OF that(2)] that(1)
    by auto
  have 3: "collect_files from_link project_hint [] ts r = Inl e"
    if "ts = pre @ (t, u, a) # post"
      and "list_all (\<lambda>(t, u, a). succeeds (from_link (Link t u a) project_hint)) pre"
      and "from_link (Link t u a) project_hint = Inl e"
    for pre t u a post e
    unfolding that(1)
    using collect_files_first_rejected
            [where from_link = from_link and hint = project_hint and pre = pre, OF that(2,3)] .
  from 1 2 3 show ?thesis
    unfolding p g by simp
qed

text \<open>C7, witness: on the page with a \<open>base\<close> element the link resolves and the
  classifier accepts the triple; the list holds its record with the project hint.
  On the page whose second anchor cannot be resolved the classifier accepts the one
  triple yielded and the \<open>ValueError\<close> of \<open>parse_links\<close> is raised.  On the page whose
  second link has no text all three links resolve and the second classifier raises
  \<open>TypeError\<close> for the second.\<close>

theorem parse_project_page_records_witness:
  "parse_links markup_given (urljoin any_host) base_page (Some ''http://a/b/'') None
     = ([(''t'', ''http://a/b/c/d'', [(''href'', Str ''d'')])], None)
   \<and> parse_project_page markup_given (urljoin any_host) keep_link base_page
        (Some ''http://a/b/'') None (Some ''proj'')
     = Inr [(Link ''t'' ''http://a/b/c/d'' [(''href'', Str ''d'')], Some ''proj'')]
   \<and> parse_links markup_given (urljoin any_host) half_resolvable_page (Some ''http://a/'') None
     = ([(''first'', ''http://a/ok'', [(''href'', Str ''ok'')])], Some ValueError)
   \<and> parse_project_page markup_given (urljoin any_host) keep_link half_resolvable_page
        (Some ''http://a/'') None None = Inl ValueError
   \<and> parse_links markup_given (urljoin any_host) unnamed_link_page None None
     = ([(''PkgA'', ''a'', [(''href'', Str ''a'')])]
          @ ([], ''b'', [(''href'', Str ''b'')]) # [(''PkgC'', ''c'', [(''href'', Str ''c'')])],
        None)
   \<and> named_link (Link [] ''b'' [(''href'', Str ''b'')]) None = Inl TypeError
   \<and> parse_project_page markup_given (urljoin any_host) named_link unnamed_link_page
        None None None = Inl TypeError"
proof -
  have g1: "parse_links markup_given (urljoin any_host) base_page (Some ''http://a/b/'') None
     = ([(''t'', ''http://a/b/c/d'', [(''href'', Str ''d'')])], None)"
    by code_simp
  have g2: "parse_links markup_given (urljoin any_host) half_resolvable_page (Some ''http://a/'') None
     = ([(''first'', ''http://a/ok'', [(''href'', Str ''ok'')])], Some ValueError)"
    by code_simp
  have g3: "parse_links markup_given (urljoin any_host) unnamed_link_page None None
     = ([(''PkgA'', ''a'', [(''href'', Str ''a'')])]
          @ ([], ''b'', [(''href'', Str ''b'')]) # [(''PkgC'', ''c'', [(''href'', Str ''c'')])],
        None)"
    by code_simp
  have n: "named_link (Link [] ''b'' [(''href'', Str ''b'')]) None = Inl TypeError"
    by (simp add: named_link_def)
  note th1 = parse_project_page_records
         [of markup_given "urljoin any_host" base_page "Some ''http://a/b/''" None keep_link
             "Some ''proj''"]
  note th2 = parse_project_page_records
         [of markup_given "urljoin any_host" half_resolvable_page "Some ''http://a/''" None
             keep_link None]
  note th3 = parse_project_page_records
         [of markup_given "urljoin any_host" unnamed_link_page None None named_link None]
  have "\<exists>files. parse_project_page markup_given (urljoin any_host) keep_link base_page
          (Some ''http://a/b/'') None (Some ''proj'') = Inr files
        \<and> map Inr files
              = map (\<lambda>(t, u, a). keep_link (Link t u a) (Some ''proj''))
                  (fst (parse_links markup_given (urljoin any_host) base_page (Some ''http://a/b/'') None))"
    by (rule th1 [THEN conjunct1, THEN mp]) (simp add: g1 keep_link_def succeeds_def)
  then obtain files where
    f: "parse_project_page markup_given (urljoin any_host) keep_link base_page
          (Some ''http://a/b/'') None (Some ''proj'') = Inr files"
    and m: "map Inr files
              = map (\<lambda>(t, u, a). keep_link (Link t u a) (Some ''proj''))
                  (fst (parse_links markup_given (urljoin any_host) base_page (Some ''http://a/b/'') None))"
    by blast
  from m have "files = [(Link ''t'' ''http://a/b/c/d'' [(''href'', Str ''d'')], Some ''proj'')]"
    unfolding g1 by (auto simp: keep_link_def)
  with f have 1: "parse_project_page markup_given (urljoin any_host) keep_link base_page
        (Some ''http://a/b/'') None (Some ''proj'')
     = Inr [(Link ''t'' ''http://a/b/c/d'' [(''href'', Str ''d'')], Some ''proj'')]"
    by simp
  have 2: "parse_project_page markup_given (urljoin any_host) keep_link half_resolvable_page
        (Some ''http://a/'') None None = Inl ValueError"
    by (rule th2 [THEN conjunct2, THEN conjunct1, THEN spec, THEN mp])
       (simp add: g2 keep_link_def succeeds_def)
  have pre: "list_all (\<lambda>(t, u, a). succeeds (named_link (Link t u a) None))
               [(''PkgA'', ''a'', [(''href'', Str ''a'')])]"
    by (simp add: named_link_def succeeds_def)
  have 3: "parse_project_page markup_given (urljoin any_host) named_link unnamed_link_page
        None None None = Inl TypeError"
    using th3 [THEN conjunct2, THEN conjunct2] g3 pre n
    by (metis fst_conv)
  from g1 g2 g3 n 1 2 3 show ?thesis by (simp only: simp_thms)
qed

text \<open>
  C9: the two lookups of \<open>href\<close> in \<open>parse_links\<close> never raise \<open>KeyError\<close>.  In any
  tree, the tag that \<open>find('base', href=True)\<close> returns and every tag that
  \<open>find_all('a', href=True)\<close> returns have a value under \<open>href\<close>, so \<open>tag['href']\<close>
  returns it.  On the tree that \<open>parse_links\<close> builds, the value is moreover a string,
  and an exception that ends \<open>parse_links\<close> is always one with which the parser
  rejected the page or one that the URL resolution raised.
\<close>

theorem parse_links_lookups_succeed:
  "(\<forall>tag. find_tag t ''base'' ''href'' = Some tag \<longrightarrow> (\<exists>v. getitem tag ''href'' = Inr v))
   \<and> (\<forall>link \<in> set (find_all t ''a'' ''href''). \<exists>v. getitem link ''href'' = Inr v)
   \<and> (\<forall>soup tag. BeautifulSoup feed html enc = Inr soup
          \<and> find_tag soup ''base'' ''href'' = Some tag
          \<longrightarrow> succeeds (href_of tag))
   \<and> (\<forall>soup. BeautifulSoup feed html enc = Inr soup
          \<longrightarrow> list_all (\<lambda>link. succeeds (href_of link)) (find_all soup ''a'' ''href''))
   \<and> (\<forall>e. snd (parse_links feed join html base_url enc) = Some e
          \<longrightarrow> feed html enc = Inl e \<or> (\<exists>b h. join b h = Inl e))"
proof -
  have 1: "\<forall>tag. find_tag t ''base'' ''href'' = Some tag \<longrightarrow> (\<exists>v. getitem tag ''href'' = Inr v)"
    using find_tag_search search_tag_getitem by blast
  have 2: "\<forall>link \<in> set (find_all t ''a'' ''href''). \<exists>v. getitem link ''href'' = Inr v"
    using search_tag_getitem by (auto simp: find_all_def)
  have 3: "\<forall>soup tag. BeautifulSoup feed html enc = Inr soup
          \<and> find_tag soup ''base'' ''href'' = Some tag
          \<longrightarrow> succeeds (href_of tag)"
  proof (intro allI impI, elim conjE)
    fix soup tag
    assume "BeautifulSoup feed html enc = Inr soup"
    then obtain doc where "soup = root_tag doc"
      by (auto simp: BeautifulSoup_def split: sum.splits)
    moreover assume "find_tag soup ''base'' ''href'' = Some tag"
    ultimately obtain e where "first_base doc = Some e" and "tag = build e"
      by (auto simp: find_tag_soup)
    then show "succeeds (href_of tag)"
      using first_base_carries href_of_build by (fastforce simp: succeeds_def)
  qed
  have 4: "\<forall>soup. BeautifulSoup feed html enc = Inr soup
          \<longrightarrow> list_all (\<lambda>link. succeeds (href_of link)) (find_all soup ''a'' ''href'')"
  proof (intro allI impI)
    fix soup
    assume "BeautifulSoup feed html enc = Inr soup"
    then obtain doc where soup: "soup = root_tag doc"
      by (auto simp: BeautifulSoup_def split: sum.splits)
    show "list_all (\<lambda>link. succeeds (href_of link)) (find_all soup ''a'' ''href'')"
      unfolding list_all_iff
    proof
      fix link assume "link \<in> set (find_all soup ''a'' ''href'')"
      then obtain a where "carries ''a'' ''href'' a" and "link = build a"
        by (auto simp: soup find_all_soup)
      then show "succeeds (href_of link)"
        using href_of_build by (fastforce simp: succeeds_def)
    qed
  qed
  have 5: "\<forall>e. snd (parse_links feed join html base_url enc) = Some e
          \<longrightarrow> feed html enc = Inl e \<or> (\<exists>b h. join b h = Inl e)"
    by (intro allI impI) (rule parse_links_error)
  from 1 2 3 4 5 show ?thesis by blast
qed

text \<open>C9, witness: on the page with a \<open>base\<close> element both searches find a tag and the
  lookups return the values written.\<close>

theorem parse_links_lookups_succeed_witness:
  "BeautifulSoup markup_given base_page None = Inr (root_tag base_page)
   \<and> find_tag (root_tag base_page) ''base'' ''href''
     = Some (Tag ''base'' [(''href'', Str ''c/'')] [])
   \<and> (\<exists>v. getitem (Tag ''base'' [(''href'', Str ''c/'')] []) ''href'' = Inr v)
   \<and> succeeds (href_of (Tag ''base'' [(''href'', Str ''c/'')] []))
   \<and> find_all (root_tag base_page) ''a'' ''href''
     = [Tag ''a'' [(''href'', Str ''d'')] [PyString NavigableString ''t'']]
   \<and> list_all (\<lambda>link. succeeds (href_of link)) (find_all (root_tag base_page) ''a'' ''href'')
   \<and> snd (parse_links markup_given (urljoin any_host) unresolvable_page (Some ''http://a/'') None)
       = Some ValueError
   \<and> (\<exists>b h. urljoin any_host b h = Inl ValueError)"
proof -
  have s: "BeautifulSoup markup_given base_page None = Inr (root_tag base_page)"
    by (simp add: BeautifulSoup_def markup_given_def)
  have f: "find_tag (root_tag base_page) ''base'' ''href''
     = Some (Tag ''base'' [(''href'', Str ''c/'')] [])"
    by code_simp
  have g: "find_all (root_tag base_page) ''a'' ''href''
     = [Tag ''a'' [(''href'', Str ''d'')] [PyString NavigableString ''t'']]"
    by code_simp
  have p: "snd (parse_links markup_given (urljoin any_host) unresolvable_page (Some ''http://a/'') None)
       = Some ValueError"
    by code_simp
  have r: "markup_given unresolvable_page None \<noteq> Inl ValueError"
    by (simp add: markup_given_def)
  note th1 = parse_links_lookups_succeed
         [of "root_tag base_page" markup_given base_page None
             "urljoin any_host" "Some ''http://a/''"]
  note th2 = parse_links_lookups_succeed
         [of "root_tag base_page" markup_given unresolvable_page None
             "urljoin any_host" "Some ''http://a/''"]
  from th1 f have 1: "\<exists>v. getitem (Tag ''base'' [(''href'', Str ''c/'')] []) ''href'' = Inr v"
    by blast
  from th1 s f have 2: "succeeds (href_of (Tag ''base'' [(''href'', Str ''c/'')] []))"
    by blast
  from th1 s have 3: "list_all (\<lambda>link. succeeds (href_of link)) (find_all (root_tag base_page) ''a'' ''href'')"
    by blast
  from th2 p r have 4: "\<exists>b h. urljoin any_host b h = Inl ValueError"
    by blast
  from s f g p 1 2 3 4 show ?thesis by (simp only: simp_thms)
qed

text \<open>
  C10: in the attributes of a yielded triple the splitting into tokens is not limited
  to \<open>class\<close>.  An attribute written on the anchor is exposed as the list of its
  tokens exactly when the tree builder lists it as multi-valued for an anchor, that is
  when it is \<open>class\<close>, \<open>accesskey\<close>, \<open>dropzone\<close>, \<open>rel\<close> or \<open>rev\<close>; every other
  attribute is exposed as the string written.  The tokens are the runs of the value
  between white space, in order: none is empty, none contains white space, and together
  they are the value without its white space.
\<close>

theorem parse_links_multi_valued_attributes:
  assumes "feed html enc = Inr doc"
    and "i < length (fst (parse_links feed join html base_url enc))"
    and "written_value k (attrs (anchors_with_href doc ! i)) = Some v"
  shows "map_of (snd (snd (fst (parse_links feed join html base_url enc) ! i))) k
           = Some (if k \<in> set [''class'', ''accesskey'', ''dropzone'', ''rel'', ''rev'']
                   then Toks (nonwhitespace_findall v) else Str v)
    \<and> concat (nonwhitespace_findall v) = filter (\<lambda>c. \<not> isspace c) v
    \<and> list_all (\<lambda>t. t \<noteq> [] \<and> list_all (\<lambda>c. \<not> isspace c) t) (nonwhitespace_findall v)
    \<and> nonwhitespace_findall ''nofollow  noopener'' = [''nofollow'', ''noopener'']"
proof -
  let ?at = "snd (snd (fst (parse_links feed join html base_url enc) ! i))"
  from parse_links_nth [where feed = feed and html = html and enc = enc, OF assms(1,2)]
  have at: "?at = starttag_attrs ''a'' (attrs (anchors_with_href doc ! i))"
    by simp
  have 1: "map_of ?at k
           = Some (if k \<in> set [''class'', ''accesskey'', ''dropzone'', ''rel'', ''rev'']
                   then Toks (nonwhitespace_findall v) else Str v)"
    unfolding at using anchor_cdata_list [of k]
    by (simp add: map_of_starttag_attrs assms(3))
  have 2: "concat (nonwhitespace_findall v) = filter (\<lambda>c. \<not> isspace c) v"
    by (simp add: nonwhitespace_findall_def findall_from_concat)
  have 3: "list_all (\<lambda>t. t \<noteq> [] \<and> list_all (\<lambda>c. \<not> isspace c) t) (nonwhitespace_findall v)"
  proof -
    have "t \<noteq> [] \<and> list_all (\<lambda>c. \<not> isspace c) t" if "t \<in> set (findall_from [] v)" for t
      using findall_from_tokens [of "[]" t v] that by simp
    then show ?thesis
      by (simp add: nonwhitespace_findall_def list_all_iff [of _ "findall_from [] v"])
  qed
  have 4: "nonwhitespace_findall ''nofollow  noopener'' = [''nofollow'', ''noopener'']"
    by code_simp
  from 1 2 3 4 show ?thesis by blast
qed

text \<open>C10, witness: the second link of the index page is written with
  \<open>REL="nofollow  noopener"\<close> and with \<open>data-x="1"\<close>.\<close>

theorem parse_links_multi_valued_attributes_witness:
  "markup_given index_page None = Inr index_page
   \<and> 1 < length (fst (parse_links markup_given (urljoin any_host) index_page None None))
   \<and> written_value ''rel'' (attrs (anchors_with_href index_page ! 1))
       = Some ''nofollow  noopener''
   \<and> written_value ''data-x'' (attrs (anchors_with_href index_page ! 1)) = Some ''1''
   \<and> map_of (snd (snd (fst (parse_links markup_given (urljoin any_host) index_page None None) ! 1)))
        ''rel'' = Some (Toks [''nofollow'', ''noopener''])
   \<and> map_of (snd (snd (fst (parse_links markup_given (urljoin any_host) index_page None None) ! 1)))
        ''data-x'' = Some (Str ''1'')"
proof -
  have m: "markup_given index_page None = Inr index_page"
    by (simp add: markup_given_def)
  have l: "1 < length (fst (parse_links markup_given (urljoin any_host) index_page None None))"
    by code_simp
  have r: "written_value ''rel'' (attrs (anchors_with_href index_page ! 1))
       = Some ''nofollow  noopener''"
    by code_simp
  have x: "written_value ''data-x'' (attrs (anchors_with_href index_page ! 1)) = Some ''1''"
    by code_simp
  have t: "nonwhitespace_findall ''nofollow  noopener'' = [''nofollow'', ''noopener'']"
    by code_simp
  from parse_links_multi_valued_attributes
         [where feed = markup_given and html = index_page and enc = None, OF m l r]
  have "map_of (snd (snd (fst (parse_links markup_given (urljoin any_host) index_page None None) ! 1)))
        ''rel'' = Some (Toks (nonwhitespace_findall ''nofollow  noopener''))"
    by simp
  then have 1: "map_of (snd (snd (fst (parse_links markup_given (urljoin any_host) index_page None None) ! 1)))
        ''rel'' = Some (Toks [''nofollow'', ''noopener''])"
    by (simp only: t)
  from parse_links_multi_valued_attributes
         [where feed = markup_given and html = index_page and enc = None, OF m l x]
  have 2: "map_of (snd (snd (fst (parse_links markup_given (urljoin any_host) index_page None None) ! 1)))
        ''data-x'' = Some (Str ''1'')"
    by simp
  from m l r x 1 2 show ?thesis by (simp only: simp_thms)
qed

end
